theory Spec2Isabelle
  imports Complex_Main "HOL-Library.Sublist"
begin

section \<open>Values of the host language\<close>

text \<open>
  A thrown or rejected value is an object read only through its \<open>message\<close> property.
  The empty message also stands for a missing one: the code reads it only as
  \<open>e.message || fallback\<close>, where both are falsy.
\<close>

datatype js_error = Error (message: string)

text \<open>
  A JSON value, as \<open>response.json()\<close> and \<open>JSON.parse\<close> produce it. \<open>JNull\<close> is the
  host's \<open>null\<close>; \<open>undefined\<close> appears only as the absent result of a property read
  and is the \<open>None\<close> of a \<open>json option\<close>.
\<close>

datatype json =
    JNull
  | JBool bool
  | JNum real
  | JStr string
  | JArr "json list"
  | JObj "(string \<times> json) list"

text \<open>Truthiness, as \<open>if (v)\<close>, \<open>!v\<close> and \<open>a || b\<close> test it.\<close>

fun truthy :: "json \<Rightarrow> bool" where
  "truthy JNull = False"
| "truthy (JBool b) = b"
| "truthy (JNum x) = (x \<noteq> 0)"
| "truthy (JStr s) = (s \<noteq> [])"
| "truthy (JArr xs) = True"
| "truthy (JObj kvs) = True"

text \<open>\<open>a || b\<close> where \<open>a\<close> may be undefined: \<open>a\<close> when truthy, else \<open>b\<close>.\<close>

definition or_else :: "json option \<Rightarrow> json \<Rightarrow> json" where
  "or_else a b = (case a of Some v \<Rightarrow> if truthy v then v else b | None \<Rightarrow> b)"

text \<open>
  \<open>v?.k\<close> for the keys the code reads (none of them is a built-in property of a string,
  an array, a number or a boolean): undefined on \<open>null\<close> and \<open>undefined\<close>, the member on
  an object, undefined on every other value.
\<close>

fun opt_prop :: "string \<Rightarrow> json option \<Rightarrow> json option" where
  "opt_prop k (Some (JObj kvs)) = map_of kvs k"
| "opt_prop k v = None"

text \<open>\<open>v?.[0]\<close>: the first element of an array, the first character of a string, the member
  \<open>"0"\<close> of an object.\<close>

fun opt_index0 :: "json option \<Rightarrow> json option" where
  "opt_index0 (Some (JArr (x # xs))) = Some x"
| "opt_index0 (Some (JStr (c # cs))) = Some (JStr [c])"
| "opt_index0 (Some (JObj kvs)) = map_of kvs ''0''"
| "opt_index0 v = None"

text \<open>Decimal rendering of a number inside a template literal.\<close>

definition digit_char :: "nat \<Rightarrow> char" where
  "digit_char d = ''0123456789'' ! d"

fun string_of_nat :: "nat \<Rightarrow> string" where
  "string_of_nat n =
     (if n < 10 then [digit_char n] else string_of_nat (n div 10) @ [digit_char (n mod 10)])"

declare string_of_nat.simps [simp del]

section \<open>The network, the clock and the random source\<close>

record response =
  ok :: bool
  status :: nat
  statusText :: string
  body :: "js_error + json"  \<comment> \<open>what \<open>response.json()\<close> settles to\<close>

datatype fetch_outcome = Resolved response | Rejected js_error

text \<open>The body of a request is the payload before \<open>JSON.stringify\<close>; the generation
  configuration is the same constant in every request and is left out.\<close>

record payload =
  prompt :: string
  mimeType :: string
  inlineData :: "string option"

record request =
  url :: string
  payload_of :: payload

record "file" =
  name :: string
  type :: string
  lastModified :: nat

text \<open>The \<open>description\<close> of an EXIF tag: a number or a text.\<close>

datatype exif_desc = NumberDesc real | TextDesc string

text \<open>The four tags the code reads, each as its \<open>?.description\<close> (\<open>None\<close> is undefined).\<close>

record exif_tags =
  DateTimeOriginal :: "string option"
  Model :: "string option"
  GPSLatitude :: "exif_desc option"
  GPSLongitude :: "exif_desc option"

text \<open>
  What the platform answers, and the two module constants too long to reproduce.
  \<open>fetch n\<close> is the outcome of the \<open>n\<close>-th call of \<open>fetch\<close> (counted from 0),
  \<open>random n\<close> the \<open>n\<close>-th value of \<open>Math.random()\<close>; \<open>readAsDataURL i\<close> and
  \<open>ExifReader_load i\<close> are what the file reader and the EXIF library settle to on the
  file at position \<open>i\<close> of the batch.
\<close>

record env =
  fetch :: "nat \<Rightarrow> fetch_outcome"
  random :: "nat \<Rightarrow> real"
  readAsDataURL :: "nat \<Rightarrow> js_error + string"
  ExifReader_load :: "nat \<Rightarrow> js_error + exif_tags"
  JSON_parse :: "json \<Rightarrow> js_error + json"
  toFixed6 :: "real \<Rightarrow> string"
  toLocaleDateString :: "nat \<Rightarrow> string"
  PROMPT_TEMPLATE :: "string list \<Rightarrow> string \<Rightarrow> string"
  ALL_PASSIONS :: "string list"

text \<open>
  What has been done so far: the number of \<open>fetch\<close> calls and their requests, the number
  of random draws, the delays handed to \<open>setTimeout\<close>, oldest first, and the files
  handed to the file reader.
\<close>

record world =
  fetches :: nat
  requests :: "request list"
  randoms :: nat
  timeouts :: "real list"
  reads :: "file list"

section \<open>exponentialBackoffFetch\<close>

datatype fetch_result = Returned response | Threw js_error | ReturnedUndefined

datatype attempt_result = Return response | Rethrow js_error | Retry

text \<open>\<open>new Error(`API call failed with status: ${response.status} ${response.statusText}`)\<close>\<close>

definition status_error :: "response \<Rightarrow> js_error" where
  "status_error r =
     Error (''API call failed with status: '' @ string_of_nat (status r) @ '' '' @ statusText r)"

text \<open>The \<open>catch\<close> block: rethrow on the last attempt, otherwise wait and go round again.\<close>

definition catch_block :: "int \<Rightarrow> nat \<Rightarrow> js_error \<Rightarrow> attempt_result" where
  "catch_block maxRetries attempt e =
     (if int attempt = maxRetries - 1 then Rethrow e else Retry)"

text \<open>
  The \<open>try\<close> block with its \<open>catch\<close>. The \<open>throw\<close> for a response that is not ok stands
  inside the \<open>try\<close>, so it lands in the same \<open>catch\<close> as a rejection of \<open>fetch\<close>.
\<close>

definition attempt_step :: "int \<Rightarrow> nat \<Rightarrow> fetch_outcome \<Rightarrow> attempt_result" where
  "attempt_step maxRetries attempt out =
     (case out of
        Resolved r \<Rightarrow>
          if ok r then Return r
          else if status r = 429 \<and> int attempt < maxRetries - 1 then Retry
          else catch_block maxRetries attempt (status_error r)
      | Rejected e \<Rightarrow> catch_block maxRetries attempt e)"

text \<open>\<open>Math.pow(2, attempt) * 1000 + Math.random() * 500\<close>, over the reals.\<close>

definition backoff_delay :: "nat \<Rightarrow> real \<Rightarrow> real" where
  "backoff_delay attempt r = 2 ^ attempt * 1000 + r * 500"

definition issue :: "request \<Rightarrow> world \<Rightarrow> world" where
  "issue req w = w\<lparr>fetches := Suc (fetches w), requests := requests w @ [req]\<rparr>"

definition sleep :: "env \<Rightarrow> nat \<Rightarrow> world \<Rightarrow> world" where
  "sleep p attempt w =
     w\<lparr>randoms := Suc (randoms w),
       timeouts := timeouts w @ [backoff_delay attempt (random p (randoms w))]\<rparr>"

text \<open>
  The \<open>for\<close> loop from a given attempt on. \<open>maxRetries\<close> is an integer count (the default
  is 3 and no caller passes another); when the loop ends without a \<open>return\<close> or a
  \<open>throw\<close>, the function returns \<open>undefined\<close>.
\<close>

function backoff_loop ::
  "env \<Rightarrow> request \<Rightarrow> int \<Rightarrow> nat \<Rightarrow> world \<Rightarrow> fetch_result \<times> world" where
  "backoff_loop p req maxRetries attempt w =
     (if int attempt < maxRetries then
        (case attempt_step maxRetries attempt (fetch p (fetches w)) of
           Return r \<Rightarrow> (Returned r, issue req w)
         | Rethrow e \<Rightarrow> (Threw e, issue req w)
         | Retry \<Rightarrow> backoff_loop p req maxRetries (Suc attempt) (sleep p attempt (issue req w)))
      else (ReturnedUndefined, w))"
  by pat_completeness auto
termination
  by (relation "measure (\<lambda>(p, req, maxRetries, attempt, w). nat (maxRetries - int attempt))") auto

declare backoff_loop.simps [simp del]

definition exponentialBackoffFetch ::
  "env \<Rightarrow> request \<Rightarrow> int \<Rightarrow> world \<Rightarrow> fetch_result \<times> world" where
  "exponentialBackoffFetch p req maxRetries w = backoff_loop p req maxRetries 0 w"

section \<open>Preprocessing\<close>

text \<open>\<open>s.split(',')\<close>: the pieces between the separators, at least one piece.\<close>

fun split_on :: "char \<Rightarrow> string \<Rightarrow> string list" where
  "split_on c [] = [[]]"
| "split_on c (x # xs) =
     (if x = c then [] # split_on c xs
      else (case split_on c xs of [] \<Rightarrow> [[x]] | y # ys \<Rightarrow> (x # y) # ys))"

text \<open>\<open>parts.join(sep)\<close>\<close>

fun join :: "string \<Rightarrow> string list \<Rightarrow> string" where
  "join sep [] = []"
| "join sep [x] = x"
| "join sep (x # y # ys) = x @ sep @ join sep (y # ys)"

text \<open>
  \<open>toBase64\<close>: the promise rejects when the reader fails, and resolves to
  \<open>reader.result.split(',')[1]\<close>, which is undefined when the result holds no comma.
\<close>

definition toBase64 :: "env \<Rightarrow> nat \<Rightarrow> js_error + string option" where
  "toBase64 p i =
     (case readAsDataURL p i of
        Inl e \<Rightarrow> Inl e
      | Inr result \<Rightarrow>
          (case split_on CHR '','' result of
             x # y # ys \<Rightarrow> Inr (Some y)
           | _ \<Rightarrow> Inr None))"

record metadata =
  date :: "string option"
  camera :: "string option"
  location :: "(exif_desc \<times> exif_desc) option"

text \<open>One entry of \<open>processedFilesData\<close>; \<open>None\<close> is \<open>null\<close> (or undefined), and the
  error is \<open>null\<close> or a message.\<close>

record preprocessed =
  pf_file :: "file"
  base64Data :: "string option"
  pf_metadata :: "metadata option"
  metadataContext :: "string option"
  pf_error :: json

text \<open>The \<open>catch\<close> of the preprocessing of one file.\<close>

definition preprocess_failed :: "file \<Rightarrow> js_error \<Rightarrow> preprocessed" where
  "preprocess_failed f preprocessingError =
     \<lparr>pf_file = f, base64Data = None, pf_metadata = None, metadataContext = None,
      pf_error = JStr (if message preprocessingError \<noteq> [] then message preprocessingError
                       else ''Failed to read file'')\<rparr>"

definition preprocess_done :: "file \<Rightarrow> string option \<Rightarrow> metadata \<Rightarrow> string \<Rightarrow> preprocessed" where
  "preprocess_done f b extractedMetadata context =
     \<lparr>pf_file = f, base64Data = b, pf_metadata = Some extractedMetadata,
      metadataContext = Some context, pf_error = JNull\<rparr>"

definition truthy_text :: "string option \<Rightarrow> bool" where
  "truthy_text t = (case t of None \<Rightarrow> False | Some s \<Rightarrow> s \<noteq> [])"

text \<open>
  The location part of the EXIF variant: present when both descriptions are defined;
  \<open>toFixed\<close> exists on numbers only, so a description that is a text throws a TypeError
  (latitude first). The text of the TypeError is the engine's.
\<close>

definition location_part :: "env \<Rightarrow> exif_tags \<Rightarrow> js_error + string list" where
  "location_part p tags =
     (case (GPSLatitude tags, GPSLongitude tags) of
        (Some lat, Some lng) \<Rightarrow>
          (case lat of
             TextDesc s \<Rightarrow> Inl (Error ''lat.toFixed is not a function'')
           | NumberDesc x \<Rightarrow>
               (case lng of
                  TextDesc s \<Rightarrow> Inl (Error ''lng.toFixed is not a function'')
                | NumberDesc y \<Rightarrow>
                    Inr [''Location: ('' @ toFixed6 p x @ '', '' @ toFixed6 p y @ '')'']))
      | _ \<Rightarrow> Inr [])"

definition exif_metadata :: "exif_tags \<Rightarrow> metadata" where
  "exif_metadata tags =
     \<lparr>date = (if truthy_text (DateTimeOriginal tags) then DateTimeOriginal tags else None),
      camera = (if truthy_text (Model tags) then Model tags else None),
      location = (case (GPSLatitude tags, GPSLongitude tags) of
                    (Some lat, Some lng) \<Rightarrow> Some (lat, lng)
                  | _ \<Rightarrow> None)\<rparr>"

definition exif_parts :: "exif_tags \<Rightarrow> string list" where
  "exif_parts tags =
     (case DateTimeOriginal tags of
        Some d \<Rightarrow> if d \<noteq> [] then [''Date taken: '' @ d] else []
      | None \<Rightarrow> []) @
     (case Model tags of
        Some c \<Rightarrow> if c \<noteq> [] then [''Camera: '' @ c] else []
      | None \<Rightarrow> [])"

definition no_tags :: exif_tags where
  "no_tags = \<lparr>DateTimeOriginal = None, Model = None, GPSLatitude = None, GPSLongitude = None\<rparr>"

definition no_metadata :: metadata where
  "no_metadata = \<lparr>date = None, camera = None, location = None\<rparr>"

text \<open>The three components of the repository differ in the credential check, the
  metadata they extract and the way the URL is built.\<close>

datatype variant = Mapper_Exif | Mapper_LastModified | Mapper_Plain

text \<open>The body of the \<open>map\<close> over the selected files, for the file at position \<open>i\<close>.\<close>

definition preprocess :: "variant \<Rightarrow> env \<Rightarrow> nat \<Rightarrow> file \<Rightarrow> preprocessed" where
  "preprocess v p i f =
     (case toBase64 p i of
        Inl e \<Rightarrow> preprocess_failed f e
      | Inr b \<Rightarrow>
          (case v of
             Mapper_Exif \<Rightarrow>
               (let tags = (case ExifReader_load p i of Inl err \<Rightarrow> no_tags | Inr t \<Rightarrow> t)
                in case location_part p tags of
                     Inl e \<Rightarrow> preprocess_failed f e
                   | Inr loc \<Rightarrow>
                       (let metadataParts = exif_parts tags @ loc
                        in preprocess_done f b (exif_metadata tags)
                             (if metadataParts \<noteq> [] then
                                ''Use the following metadata to improve the analysis: '' @
                                join ''; '' metadataParts
                              else ''No additional metadata available.'')))
           | Mapper_LastModified \<Rightarrow>
               (if lastModified f \<noteq> 0 then
                  preprocess_done f b (no_metadata\<lparr>date := Some (toLocaleDateString p (lastModified f))\<rparr>)
                    (''Date taken/modified: '' @ toLocaleDateString p (lastModified f))
                else preprocess_done f b no_metadata ''No additional metadata available.'')
           | Mapper_Plain \<Rightarrow> preprocess_done f b no_metadata []))"

text \<open>\<open>Promise.all(selectedFiles.map(...))\<close>: the entries in the order of the files.\<close>

definition preprocess_all :: "variant \<Rightarrow> env \<Rightarrow> file list \<Rightarrow> preprocessed list" where
  "preprocess_all v p fs = map (\<lambda>(i, f). preprocess v p i f) (enumerate 0 fs)"

section \<open>The component state\<close>

text \<open>
  The four pieces of React state of the component. Each handler is one step on the state it
  closes over, and \<open>null\<close> in a result item is \<open>JNull\<close> (data, error) or \<open>None\<close>.
\<close>

record result =
  "file" :: "file"
  data :: json
  error :: json
  processing :: bool
  metadata :: "metadata option"

record app =
  selectedFiles :: "file list"
  results :: "result list"
  loading :: bool
  app_error :: "string option"

definition MAX_FILES :: nat where
  "MAX_FILES = 25"

definition API_URL :: string where
  "API_URL = ''https://generativelanguage.googleapis.com/v1beta/models/gemini-2.5-flash-preview-09-2025:generateContent?key=''"

text \<open>\<open>handleFileChange\<close>, the same in the three components; \<open>chosen\<close> is
  \<open>event.target.files\<close>.\<close>

definition handleFileChange :: "file list \<Rightarrow> app \<Rightarrow> app" where
  "handleFileChange chosen a =
     (let a1 = a\<lparr>app_error := None\<rparr>;
          newFiles = filter (\<lambda>f. prefix ''image/'' (type f)) chosen
      in if length (selectedFiles a1) + length newFiles > MAX_FILES then
           a1\<lparr>app_error := Some (''Maximum of '' @ string_of_nat MAX_FILES @
                                  '' photos allowed. Please select fewer files.'')\<rparr>
         else
           (let prev = selectedFiles a1;
                updated = take MAX_FILES (prev @ newFiles)
            in a1\<lparr>results := (if length prev \<noteq> length updated then [] else results a1),
                  selectedFiles := updated\<rparr>))"

text \<open>\<open>prev.filter((_, i) => i !== indexToRemove)\<close>\<close>

definition filter_index :: "(nat \<Rightarrow> bool) \<Rightarrow> 'a list \<Rightarrow> 'a list" where
  "filter_index keep xs = map snd (filter (\<lambda>(i, x). keep i) (enumerate 0 xs))"

definition removeFile :: "int \<Rightarrow> app \<Rightarrow> app" where
  "removeFile indexToRemove a =
     (if loading a then a
      else a\<lparr>selectedFiles := filter_index (\<lambda>i. int i \<noteq> indexToRemove) (selectedFiles a),
             results := []\<rparr>)"

section \<open>analyzeImages\<close>

text \<open>
  The credential. The EXIF component reads it from the build environment
  (\<open>import.meta.env.VITE_GEMINI_API_KEY || ''\<close>); the other two hold the constant
  \<open>apiKey = ""\<close>.
\<close>

definition apiKey :: "variant \<Rightarrow> string \<Rightarrow> string" where
  "apiKey v envKey = (case v of Mapper_Exif \<Rightarrow> envKey | _ \<Rightarrow> [])"

definition build_request :: "variant \<Rightarrow> string \<Rightarrow> env \<Rightarrow> preprocessed \<Rightarrow> request" where
  "build_request v envKey p pf =
     \<lparr>url = API_URL @ apiKey v envKey,
      payload_of =
        \<lparr>prompt = PROMPT_TEMPLATE p (ALL_PASSIONS p)
                    (case metadataContext pf of None \<Rightarrow> ''null'' | Some c \<Rightarrow> c),
         mimeType = type (pf_file pf),
         inlineData = base64Data pf\<rparr>\<rparr>"

text \<open>The \<open>catch\<close> of the loop body, as the pair of the item's new data and error.\<close>

definition caught :: "js_error \<Rightarrow> json \<times> json" where
  "caught fileError =
     (JNull, JStr (if message fileError \<noteq> [] then message fileError
                   else ''File processing failed''))"

definition errorMessage :: "json \<Rightarrow> json" where
  "errorMessage apiResult =
     (let err = opt_prop ''error'' (Some apiResult)
      in or_else (opt_prop ''message'' err)
           (or_else (opt_prop ''message'' (opt_index0 (opt_prop ''details'' err)))
              (JStr ''Model response was empty or malformed.'')))"

text \<open>
  The rest of the \<open>try\<close> block after the retrying call. Reading \<open>.json\<close> of undefined
  and \<open>.candidates\<close> of \<open>null\<close> throw a TypeError (worded as Chrome and Node do); a rejected
  \<open>response.json()\<close> and a throwing \<open>JSON.parse\<close> land in the same \<open>catch\<close>.
\<close>

definition read_response :: "env \<Rightarrow> fetch_result \<Rightarrow> json \<times> json" where
  "read_response p res =
     (case res of
        Threw e \<Rightarrow> caught e
      | ReturnedUndefined \<Rightarrow> caught (Error ''Cannot read properties of undefined (reading 'json')'')
      | Returned response \<Rightarrow>
          (case body response of
             Inl e \<Rightarrow> caught e
           | Inr apiResult \<Rightarrow>
               if apiResult = JNull then
                 caught (Error ''Cannot read properties of null (reading 'candidates')'')
               else
                 (let candidate = opt_index0 (opt_prop ''candidates'' (Some apiResult));
                      jsonText = opt_prop ''text'' (opt_index0 (opt_prop ''parts''
                                   (opt_prop ''content'' candidate)))
                  in case jsonText of
                       None \<Rightarrow> (JNull, errorMessage apiResult)
                     | Some t \<Rightarrow>
                         if truthy t then
                           (case JSON_parse p t of
                              Inl e \<Rightarrow> caught e
                            | Inr parsedJson \<Rightarrow> (parsedJson, JNull))
                         else (JNull, errorMessage apiResult))))"

text \<open>
  The state of one run: the component state, the world, the local \<open>currentResults\<close>
  and every list handed to \<open>setResults\<close>, oldest first.
\<close>

record run =
  ui :: app
  world_of :: world
  currentResults :: "result list"
  published :: "result list list"

definition setResults :: "result list \<Rightarrow> run \<Rightarrow> run" where
  "setResults rs r = r\<lparr>ui := (ui r)\<lparr>results := rs\<rparr>, published := published r @ [rs]\<rparr>"

definition initial_result :: "preprocessed \<Rightarrow> result" where
  "initial_result pf =
     \<lparr>file = pf_file pf, data = JNull, error = pf_error pf,
      processing = (\<not> truthy (pf_error pf)), metadata = pf_metadata pf\<rparr>"

text \<open>The body of the loop over \<open>processedFilesData\<close> at index \<open>i\<close>, which the loop keeps
  below the length.\<close>

definition loop_body ::
  "variant \<Rightarrow> string \<Rightarrow> env \<Rightarrow> preprocessed list \<Rightarrow> nat \<Rightarrow> run \<Rightarrow> run" where
  "loop_body v envKey p processedFilesData i r =
     (let pf = processedFilesData ! i
      in if truthy (pf_error pf) then r
         else
           (let (res, w) = exponentialBackoffFetch p (build_request v envKey p pf) 3 (world_of r);
                (d, e) = read_response p res;
                cur = (currentResults r)
                        [i := (currentResults r ! i)\<lparr>data := d, error := e, processing := False\<rparr>]
            in setResults cur (r\<lparr>world_of := w, currentResults := cur\<rparr>)))"

definition idle :: "app \<Rightarrow> world \<Rightarrow> run" where
  "idle a w = \<lparr>ui = a, world_of = w, currentResults = [], published = []\<rparr>"

text \<open>
  One call of \<open>analyzeImages\<close>, run to its end. Only the EXIF component checks the
  credential; the comment of the second one reads "Removed explicit API key check for
  this environment".
\<close>

definition analyzeImages :: "variant \<Rightarrow> string \<Rightarrow> env \<Rightarrow> app \<Rightarrow> world \<Rightarrow> run" where
  "analyzeImages v envKey p a w =
     (if selectedFiles a = [] \<or> loading a then idle a w
      else if v = Mapper_Exif \<and> apiKey v envKey = [] then
        idle (a\<lparr>app_error := Some
          ''API Key Missing! Please set the VITE_GEMINI_API_KEY environment variable.''\<rparr>) w
      else
        (let a1 = a\<lparr>loading := True, app_error := None\<rparr>;
             processedFilesData = preprocess_all v p (selectedFiles a1);
             w1 = w\<lparr>reads := reads w @ selectedFiles a1\<rparr>;
             initialResults = map initial_result processedFilesData;
             r0 = setResults initialResults
                    \<lparr>ui = a1, world_of = w1, currentResults = initialResults, published = []\<rparr>;
             r = fold (loop_body v envKey p processedFilesData)
                   [0..<length processedFilesData] r0
         in r\<lparr>ui := (ui r)\<lparr>loading := False\<rparr>\<rparr>))"

section \<open>Notions used in the statements, and sample inputs\<close>

text \<open>An attempt fails when \<open>fetch\<close> rejects or resolves with a response that is not ok; the
  error of a failed attempt is the rejection, or the error naming the status.\<close>

definition failed :: "fetch_outcome \<Rightarrow> bool" where
  "failed out = (case out of Resolved r \<Rightarrow> \<not> ok r | Rejected e \<Rightarrow> True)"

definition rate_limited :: "fetch_outcome \<Rightarrow> bool" where
  "rate_limited out = (case out of Resolved r \<Rightarrow> \<not> ok r \<and> status r = 429 | Rejected e \<Rightarrow> False)"

definition rejected :: "fetch_outcome \<Rightarrow> bool" where
  "rejected out = (case out of Resolved r \<Rightarrow> False | Rejected e \<Rightarrow> True)"

definition error_of :: "fetch_outcome \<Rightarrow> js_error" where
  "error_of out = (case out of Resolved r \<Rightarrow> status_error r | Rejected e \<Rightarrow> e)"

text \<open>The delays a call added to the log.\<close>

definition new_timeouts :: "world \<Rightarrow> world \<Rightarrow> real list" where
  "new_timeouts w w' = drop (length (timeouts w)) (timeouts w')"

text \<open>Sample inputs: a response with a status (ok is the range 200 to 299, as the fetch
  standard has it), a scripted network that rejects once the script is over, and a stand-in
  for \<open>JSON.parse\<close> that knows three texts and agrees with \<open>JSON.parse\<close> on them.\<close>

definition http_response :: "nat \<Rightarrow> string \<Rightarrow> json \<Rightarrow> response" where
  "http_response code txt b = \<lparr>ok = (200 \<le> code \<and> code \<le> 299), status = code, statusText = txt, body = Inr b\<rparr>"

definition scripted :: "fetch_outcome list \<Rightarrow> nat \<Rightarrow> fetch_outcome" where
  "scripted outs n = (if n < length outs then outs ! n else Rejected (Error ''Failed to fetch''))"

definition literal_parse :: "json \<Rightarrow> js_error + json" where
  "literal_parse t =
     (if t = JStr ''null'' then Inr JNull
      else if t = JStr ''true'' then Inr (JBool True)
      else if t = JStr ''{}'' then Inr (JObj [])
      else Inl (Error ''Unexpected token''))"

definition demo_env :: "fetch_outcome list \<Rightarrow> (js_error + string) list \<Rightarrow> env" where
  "demo_env outs outcomes =
     \<lparr>fetch = scripted outs,
      random = (\<lambda>n. 1 / 2),
      readAsDataURL = (\<lambda>i. if i < length outcomes then outcomes ! i else Inl (Error [])),
      ExifReader_load = (\<lambda>i. Inl (Error ''no EXIF'')),
      JSON_parse = literal_parse,
      toFixed6 = (\<lambda>x. ''0.000000''),
      toLocaleDateString = (\<lambda>t. ''1/1/2024''),
      PROMPT_TEMPLATE = (\<lambda>passions context. join '', '' passions @ '' | '' @ context),
      ALL_PASSIONS = [''Live Painting'', ''Sound Healing'']\<rparr>"

definition fresh :: world where
  "fresh = \<lparr>fetches = 0, requests = [], randoms = 0, timeouts = [], reads = []\<rparr>"

definition demo_request :: request where
  "demo_request = \<lparr>url = API_URL, payload_of = \<lparr>prompt = ''p'', mimeType = ''image/png'', inlineData = Some ''AAAA''\<rparr>\<rparr>"

definition photo :: "string \<Rightarrow> file" where
  "photo n = \<lparr>name = n, type = ''image/jpeg'', lastModified = 0\<rparr>"

definition demo_app :: "file list \<Rightarrow> app" where
  "demo_app fs = \<lparr>selectedFiles = fs, results = [], loading = False, app_error = None\<rparr>"

text \<open>The success body of the inference endpoint around a model text.\<close>

definition model_reply :: "string \<Rightarrow> json" where
  "model_reply t = JObj [(''candidates'', JArr [JObj [(''content'', JObj [(''parts'', JArr [JObj [(''text'', JStr t)]])])]])]"

text \<open>A stand-in for \<open>JSON.parse\<close> that knows one text and never yields \<open>null\<close>.\<close>

definition object_parse :: "json \<Rightarrow> js_error + json" where
  "object_parse t = (if t = JStr ''{}'' then Inr (JObj []) else Inl (Error ''Unexpected token''))"

definition two_photos :: app where
  "two_photos = demo_app [photo ''a'', photo ''b'']"

text \<open>One 200 response around the text \<open>t\<close>; the first of two files cannot be read (the
  reader's error event carries no message), or the only file can.\<close>

definition first_unreadable :: "string \<Rightarrow> env" where
  "first_unreadable t =
     demo_env [Resolved (http_response 200 ''OK'' (model_reply t))]
       [Inl (Error []), Inr ''data:image/jpeg;base64,AAAA'']"

definition one_readable :: "string \<Rightarrow> env" where
  "one_readable t =
     demo_env [Resolved (http_response 200 ''OK'' (model_reply t))]
       [Inr ''data:image/jpeg;base64,AAAA'']"

text \<open>The list without the element at an index, unchanged when the index is out of range.\<close>

definition remove_at :: "int \<Rightarrow> 'a list \<Rightarrow> 'a list" where
  "remove_at i xs =
     (if 0 \<le> i \<and> i < int (length xs) then take (nat i) xs @ drop (Suc (nat i)) xs else xs)"

text \<open>
  The states of a result item. An item is terminal when \<open>processing\<close> is false and exactly
  one of the two holds: its data is set (not \<open>null\<close>) with \<open>error\<close> \<open>null\<close>, or its error
  is set (truthy, as the result card tests it). It is settled when \<open>processing\<close> is false
  and its error is \<open>null\<close>, or set with the data \<open>null\<close>.
\<close>

definition succeeded :: "result \<Rightarrow> bool" where
  "succeeded x = (data x \<noteq> JNull \<and> error x = JNull)"

definition errored :: "result \<Rightarrow> bool" where
  "errored x = truthy (error x)"

definition terminal :: "result \<Rightarrow> bool" where
  "terminal x = (\<not> processing x \<and> (succeeded x \<noteq> errored x))"

definition settled :: "result \<Rightarrow> bool" where
  "settled x = (\<not> processing x \<and> (error x = JNull \<or> (errored x \<and> data x = JNull)))"

text \<open>The number of items of a published list that are no longer processing.\<close>

definition terminal_count :: "result list \<Rightarrow> nat" where
  "terminal_count rs = length (filter (\<lambda>x. \<not> processing x) rs)"

text \<open>Once an item of a published list is no longer processing, every later published list
  holds the same item at that position.\<close>

definition final_items :: "nat \<Rightarrow> result list list \<Rightarrow> bool" where
  "final_items N pubs =
     (\<forall>k l i. k \<le> l \<and> l < length pubs \<and> i < N \<and> \<not> processing (pubs ! k ! i) \<longrightarrow>
        pubs ! l ! i = pubs ! k ! i)"

text \<open>The guards of \<open>analyzeImages\<close> let the run start.\<close>

definition started :: "variant \<Rightarrow> string \<Rightarrow> app \<Rightarrow> bool" where
  "started v envKey a = (selectedFiles a \<noteq> [] \<and> \<not> loading a \<and> \<not> (v = Mapper_Exif \<and> apiKey v envKey = []))"

text \<open>The run state on entry to the loop, and at its end.\<close>

definition first_run :: "variant \<Rightarrow> string \<Rightarrow> env \<Rightarrow> app \<Rightarrow> world \<Rightarrow> run" where
  "first_run v envKey p a w =
     setResults (map initial_result (preprocess_all v p (selectedFiles a)))
       \<lparr>ui = a\<lparr>loading := True, app_error := None\<rparr>,
        world_of = w\<lparr>reads := reads w @ selectedFiles a\<rparr>,
        currentResults = map initial_result (preprocess_all v p (selectedFiles a)),
        published = []\<rparr>"

definition loop_end :: "variant \<Rightarrow> string \<Rightarrow> env \<Rightarrow> app \<Rightarrow> world \<Rightarrow> run" where
  "loop_end v k p a w =
     fold (loop_body v k p (preprocess_all v p (selectedFiles a)))
       [0..<length (selectedFiles a)] (first_run v k p a w)"

text \<open>
  The invariants of the loop after \<open>n\<close> iterations: the lists keep their length and files,
  the last published list is the current one, positions from \<open>n\<close> on are still the initial
  ones; the items below \<open>n\<close> satisfy \<open>Q\<close>; the terminal counts rise; terminal items stay;
  every item below \<open>n\<close> without a preprocessing error has had its request issued; every item
  with a preprocessing error is still the initial one.
\<close>

definition frame :: "preprocessed list \<Rightarrow> run \<Rightarrow> nat \<Rightarrow> run \<Rightarrow> bool" where
  "frame pfs r0 n r =
     (length (currentResults r) = length pfs \<and>
      published r \<noteq> [] \<and> last (published r) = currentResults r \<and>
      results (ui r) = currentResults r \<and>
      (\<forall>q \<in> set (published r). length q = length pfs \<and> map file q = map pf_file pfs \<and>
         (\<forall>j. n \<le> j \<and> j < length pfs \<longrightarrow> q ! j = initial_result (pfs ! j))) \<and>
      selectedFiles (ui r) = selectedFiles (ui r0) \<and> loading (ui r) = loading (ui r0) \<and>
      app_error (ui r) = app_error (ui r0) \<and> reads (world_of r) = reads (world_of r0))"

definition each_below :: "(result \<Rightarrow> bool) \<Rightarrow> nat \<Rightarrow> run \<Rightarrow> bool" where
  "each_below Q n r = (\<forall>j < n. Q (currentResults r ! j))"

definition rising :: "run \<Rightarrow> bool" where
  "rising r =
     (sorted (map terminal_count (published r)) \<and>
      (\<forall>q \<in> set (published r). terminal_count q \<le> terminal_count (currentResults r)))"

definition anchored :: "nat \<Rightarrow> run \<Rightarrow> bool" where
  "anchored N r =
     (final_items N (published r) \<and>
      (\<forall>q \<in> set (published r). \<forall>i < N. \<not> processing (q ! i) \<longrightarrow> currentResults r ! i = q ! i))"

definition sent :: "variant \<Rightarrow> string \<Rightarrow> env \<Rightarrow> preprocessed list \<Rightarrow> nat \<Rightarrow> run \<Rightarrow> bool" where
  "sent v envKey p pfs n r =
     (\<forall>j < n. \<not> truthy (pf_error (pfs ! j)) \<longrightarrow>
        build_request v envKey p (pfs ! j) \<in> set (requests (world_of r)))"

definition kept :: "preprocessed list \<Rightarrow> run \<Rightarrow> bool" where
  "kept pfs r =
     (\<forall>j < length pfs. truthy (pf_error (pfs ! j)) \<longrightarrow>
        currentResults r ! j = initial_result (pfs ! j))"

definition all_invariants ::
  "variant \<Rightarrow> string \<Rightarrow> env \<Rightarrow> preprocessed list \<Rightarrow> run \<Rightarrow> nat \<Rightarrow> run \<Rightarrow> bool" where
  "all_invariants v k p pfs r0 n r =
     (frame pfs r0 n r \<and> each_below settled n r \<and> rising r \<and> anchored (length pfs) r \<and>
      sent v k p pfs n r \<and> kept pfs r \<and>
      ((\<forall>t. JSON_parse p t \<noteq> Inr JNull) \<longrightarrow> each_below terminal n r))"


text \<open>
  The reply of one inference call, in the words of the specification: the text of the
  first part of the first candidate of the response body, and the value \<open>JSON.parse\<close>
  returns for it. There is none when the call threw, the body could not be read, the text
  is missing or empty, or the text does not parse.
\<close>

definition jsonText_of :: "json \<Rightarrow> json option" where
  "jsonText_of apiResult =
     opt_prop ''text'' (opt_index0 (opt_prop ''parts'' (opt_prop ''content''
       (opt_index0 (opt_prop ''candidates'' (Some apiResult))))))"

definition reply_value :: "env \<Rightarrow> fetch_result \<Rightarrow> json option" where
  "reply_value p res =
     (case res of
        Returned r \<Rightarrow>
          (case body r of
             Inr apiResult \<Rightarrow>
               (case jsonText_of apiResult of
                  Some t \<Rightarrow>
                    if truthy t then
                      (case JSON_parse p t of Inr parsed \<Rightarrow> Some parsed | Inl e \<Rightarrow> None)
                    else None
                | None \<Rightarrow> None)
           | Inl e \<Rightarrow> None)
      | Threw e \<Rightarrow> None
      | ReturnedUndefined \<Rightarrow> None)"

text \<open>The run state after the first \<open>n\<close> iterations of the loop, and what the retrying call
  of iteration \<open>j\<close> gives in the world it finds.\<close>

definition loop_upto :: "variant \<Rightarrow> string \<Rightarrow> env \<Rightarrow> app \<Rightarrow> world \<Rightarrow> nat \<Rightarrow> run" where
  "loop_upto v k p a w n =
     fold (loop_body v k p (preprocess_all v p (selectedFiles a))) [0..<n] (first_run v k p a w)"

definition call_result :: "variant \<Rightarrow> string \<Rightarrow> env \<Rightarrow> app \<Rightarrow> world \<Rightarrow> nat \<Rightarrow> fetch_result" where
  "call_result v k p a w j =
     fst (exponentialBackoffFetch p
            (build_request v k p (preprocess v p j (selectedFiles a ! j))) 3
            (world_of (loop_upto v k p a w j)))"

text \<open>
  The outcome an item owes to its own file alone: not processing, the file and metadata
  of its own preprocessing, and either the error of its own preprocessing, or the parsed
  reply of its own call with a \<open>null\<close> error, or a set error with \<open>null\<close> data when its
  own call gave no parsed reply. A null reply is a reply that parsed to \<open>null\<close>.
\<close>

definition own_outcome ::
  "variant \<Rightarrow> string \<Rightarrow> env \<Rightarrow> app \<Rightarrow> world \<Rightarrow> nat \<Rightarrow> result \<Rightarrow> bool" where
  "own_outcome v k p a w j x =
     (\<not> processing x \<and> file x = selectedFiles a ! j \<and>
      metadata x = pf_metadata (preprocess v p j (selectedFiles a ! j)) \<and>
      (if truthy (pf_error (preprocess v p j (selectedFiles a ! j))) then
         data x = JNull \<and> error x = pf_error (preprocess v p j (selectedFiles a ! j))
       else
         (case reply_value p (call_result v k p a w j) of
            Some parsed \<Rightarrow> data x = parsed \<and> error x = JNull
          | None \<Rightarrow> data x = JNull \<and> errored x)))"

definition null_reply :: "variant \<Rightarrow> string \<Rightarrow> env \<Rightarrow> app \<Rightarrow> world \<Rightarrow> nat \<Rightarrow> bool" where
  "null_reply v k p a w j =
     (\<not> truthy (pf_error (preprocess v p j (selectedFiles a ! j))) \<and>
      reply_value p (call_result v k p a w j) = Some JNull)"

section \<open>Properties of exponentialBackoffFetch\<close>

lemma backoff_loop_unfold:
  "int attempt < maxRetries \<Longrightarrow>
   backoff_loop p req maxRetries attempt w =
     (case attempt_step maxRetries attempt (fetch p (fetches w)) of
        Return r \<Rightarrow> (Returned r, issue req w)
      | Rethrow e \<Rightarrow> (Threw e, issue req w)
      | Retry \<Rightarrow> backoff_loop p req maxRetries (Suc attempt) (sleep p attempt (issue req w)))"
  by (subst backoff_loop.simps) simp

lemma backoff_loop_exhausted:
  "\<not> int attempt < maxRetries \<Longrightarrow> backoff_loop p req maxRetries attempt w = (ReturnedUndefined, w)"
  by (subst backoff_loop.simps) simp

lemma attempt_step_Retry:
  "attempt_step maxRetries attempt out = Retry \<Longrightarrow> int attempt < maxRetries
   \<Longrightarrow> int (Suc attempt) < maxRetries"
  by (auto simp: attempt_step_def catch_block_def split: fetch_outcome.splits if_splits)

lemma attempt_step_Return:
  "attempt_step maxRetries attempt out = Return r \<Longrightarrow> ok r"
  by (auto simp: attempt_step_def catch_block_def split: fetch_outcome.splits if_splits)

lemma world_simps [simp]:
  "fetches (issue req w) = Suc (fetches w)"
  "requests (issue req w) = requests w @ [req]"
  "randoms (issue req w) = randoms w"
  "timeouts (issue req w) = timeouts w"
  "reads (issue req w) = reads w"
  "fetches (sleep p a w) = fetches w"
  "requests (sleep p a w) = requests w"
  "randoms (sleep p a w) = Suc (randoms w)"
  "timeouts (sleep p a w) = timeouts w @ [backoff_delay a (random p (randoms w))]"
  "reads (sleep p a w) = reads w"
  by (simp_all add: issue_def sleep_def)

lemma backoff_loop_settles:
  "int attempt < maxRetries \<Longrightarrow>
   (\<exists>r. fst (backoff_loop p req maxRetries attempt w) = Returned r \<and> ok r) \<or>
   (\<exists>e. fst (backoff_loop p req maxRetries attempt w) = Threw e)"
proof (induction p req maxRetries attempt w rule: backoff_loop.induct)
  case (1 p req maxRetries attempt w)
  note lt = \<open>int attempt < maxRetries\<close>
  show ?case
  proof (cases "attempt_step maxRetries attempt (fetch p (fetches w))")
    case (Return r)
    with lt attempt_step_Return[OF Return] show ?thesis
      by (simp add: backoff_loop_unfold)
  next
    case (Rethrow e)
    with lt show ?thesis
      by (simp add: backoff_loop_unfold)
  next
    case Retry
    from "1.IH"[OF lt Retry attempt_step_Retry[OF Retry lt]] lt Retry show ?thesis
      by (simp add: backoff_loop_unfold)
  qed
qed

lemma backoff_loop_trace:
  "int attempt < maxRetries \<Longrightarrow>
   \<exists>n. int (attempt + n) < maxRetries
     \<and> fetches (snd (backoff_loop p req maxRetries attempt w)) = fetches w + Suc n
     \<and> requests (snd (backoff_loop p req maxRetries attempt w)) = requests w @ replicate (Suc n) req
     \<and> randoms (snd (backoff_loop p req maxRetries attempt w)) = randoms w + n
     \<and> reads (snd (backoff_loop p req maxRetries attempt w)) = reads w
     \<and> timeouts (snd (backoff_loop p req maxRetries attempt w)) =
         timeouts w @ map (\<lambda>k. backoff_delay (attempt + k) (random p (randoms w + k))) [0..<n]"
proof (induction p req maxRetries attempt w rule: backoff_loop.induct)
  case (1 p req maxRetries attempt w)
  note lt = \<open>int attempt < maxRetries\<close>
  show ?case
  proof (cases "attempt_step maxRetries attempt (fetch p (fetches w))")
    case (Return r)
    with lt show ?thesis
      by (intro exI[of _ 0]) (simp add: backoff_loop_unfold)
  next
    case (Rethrow e)
    with lt show ?thesis
      by (intro exI[of _ 0]) (simp add: backoff_loop_unfold)
  next
    case Retry
    let ?w1 = "sleep p attempt (issue req w)"
    let ?R = "backoff_loop p req maxRetries (Suc attempt) ?w1"
    have lt': "int (Suc attempt) < maxRetries"
      using attempt_step_Retry[OF Retry lt] .
    from "1.IH"[OF lt Retry lt'] obtain n where
      n: "int (Suc attempt + n) < maxRetries"
         "fetches (snd ?R) = fetches ?w1 + Suc n"
         "requests (snd ?R) = requests ?w1 @ replicate (Suc n) req"
         "randoms (snd ?R) = randoms ?w1 + n"
         "reads (snd ?R) = reads ?w1"
         "timeouts (snd ?R) = timeouts ?w1 @
            map (\<lambda>k. backoff_delay (Suc attempt + k) (random p (randoms ?w1 + k))) [0..<n]"
      by blast
    have eq: "backoff_loop p req maxRetries attempt w = ?R"
      using lt Retry by (simp add: backoff_loop_unfold)
    show ?thesis
      unfolding eq using n
      by (intro exI[of _ "Suc n"]) (simp add: map_upt_Suc replicate_append_same del: upt_Suc)
  qed
qed

lemmas eval_backoff =
  exponentialBackoffFetch_def backoff_loop_unfold backoff_loop_exhausted attempt_step_def
  catch_block_def status_error_def scripted_def http_response_def demo_env_def fresh_def
  issue_def sleep_def backoff_delay_def

text \<open>
  Claim C10. With \<open>maxRetries\<close> at least 1, \<open>exponentialBackoffFetch\<close> either returns a
  response whose \<open>ok\<close> is true or throws: it never returns a response that is not ok, and
  never returns undefined.
\<close>

theorem exponentialBackoffFetch_ok_or_throws:
  assumes "1 \<le> maxRetries"
  shows "(\<exists>r. fst (exponentialBackoffFetch p req maxRetries w) = Returned r \<and> ok r) \<or>
         (\<exists>e. fst (exponentialBackoffFetch p req maxRetries w) = Threw e)"
  unfolding exponentialBackoffFetch_def
  using assms by (intro backoff_loop_settles) simp

theorem exponentialBackoffFetch_ok_or_throws_witness:
  "(1::int) \<le> 3 \<and>
   fst (exponentialBackoffFetch
          (demo_env [Resolved (http_response 429 ''Too Many Requests'' JNull),
                     Resolved (http_response 200 ''OK'' JNull)] [])
          demo_request 3 fresh) = Returned (http_response 200 ''OK'' JNull) \<and>
   ok (http_response 200 ''OK'' JNull)"
proof -
  have h: "(1::int) \<le> 3" by simp
  show ?thesis
    using exponentialBackoffFetch_ok_or_throws[OF h, of
          "demo_env [Resolved (http_response 429 ''Too Many Requests'' JNull),
                     Resolved (http_response 200 ''OK'' JNull)] []" demo_request fresh]
    by (simp add: eval_backoff)
qed

text \<open>
  Claim C1 says that a response that is not ok and whose status is not 429 ends the call
  at once: one \<open>fetch\<close>, and the error naming the status thrown. The code throws that error
  inside its own \<open>try\<close>, so the \<open>catch\<close> meant for network failures takes it and, before
  the last attempt, waits and tries again. On the outcomes 500, 200 the call issues two
  requests and returns the second response.
\<close>

theorem exponentialBackoffFetch_retries_500:
  "exponentialBackoffFetch
     (demo_env [Resolved (http_response 500 ''Internal Server Error'' JNull),
                Resolved (http_response 200 ''OK'' JNull)] [])
     demo_request 3 fresh =
   (Returned (http_response 200 ''OK'' JNull),
    \<lparr>fetches = 2, requests = [demo_request, demo_request], randoms = 1,
     timeouts = [1250], reads = []\<rparr>)"
  by (simp add: eval_backoff)

text \<open>On three 500 responses it issues three requests before the error reaches the caller.\<close>

lemma exponentialBackoffFetch_500_thrice:
  "exponentialBackoffFetch
     (demo_env [Resolved (http_response 500 ''Internal Server Error'' JNull),
                Resolved (http_response 500 ''Internal Server Error'' JNull),
                Resolved (http_response 500 ''Internal Server Error'' JNull)] [])
     demo_request 3 fresh =
   (Threw (Error ''API call failed with status: 500 Internal Server Error''),
    \<lparr>fetches = 3, requests = [demo_request, demo_request, demo_request], randoms = 2,
     timeouts = [1250, 2250], reads = []\<rparr>)"
  by (simp add: eval_backoff string_of_nat.simps digit_char_def)


subsection \<open>The default of three attempts\<close>

lemma backoff_three_429_429_ok:
  assumes "fetch p (fetches w) = Resolved r0" "\<not> ok r0" "status r0 = 429"
      and "fetch p (Suc (fetches w)) = Resolved r1" "\<not> ok r1" "status r1 = 429"
      and "fetch p (Suc (Suc (fetches w))) = Resolved r2" "ok r2"
  shows "fst (exponentialBackoffFetch p req 3 w) = Returned r2"
    and "fetches (snd (exponentialBackoffFetch p req 3 w)) = fetches w + 3"
  using assms
  by (simp_all add: exponentialBackoffFetch_def backoff_loop_unfold attempt_step_def)

lemma backoff_at_most_max:
  "1 \<le> maxRetries \<Longrightarrow>
   int (fetches (snd (exponentialBackoffFetch p req maxRetries w))) \<le> int (fetches w) + maxRetries"
proof -
  assume "1 \<le> maxRetries"
  then have "int (0::nat) < maxRetries" by simp
  from backoff_loop_trace[OF this, of p req w] show ?thesis
    unfolding exponentialBackoffFetch_def by auto
qed

lemma attempt_step_retryable:
  "rate_limited out \<or> rejected out \<Longrightarrow> int attempt < maxRetries - 1 \<Longrightarrow>
   attempt_step maxRetries attempt out = Retry"
  by (auto simp: attempt_step_def catch_block_def rate_limited_def rejected_def
           split: fetch_outcome.splits)

lemma attempt_step_failed:
  "failed out \<Longrightarrow> int attempt < maxRetries - 1 \<Longrightarrow>
   attempt_step maxRetries attempt out = Retry"
  by (auto simp: attempt_step_def catch_block_def failed_def split: fetch_outcome.splits)

lemma attempt_step_failed_last:
  "failed out \<Longrightarrow> int attempt = maxRetries - 1 \<Longrightarrow>
   attempt_step maxRetries attempt out = Rethrow (error_of out)"
  by (auto simp: attempt_step_def catch_block_def failed_def error_of_def
           split: fetch_outcome.splits)

lemma backoff_three_retry_once:
  assumes "rate_limited (fetch p (fetches w)) \<or> rejected (fetch p (fetches w))"
  shows "fetches w + 2 \<le> fetches (snd (exponentialBackoffFetch p req 3 w))"
proof -
  have "int (Suc 0) < 3" by simp
  from backoff_loop_trace[OF this, of p req "sleep p 0 (issue req w)"] show ?thesis
    using attempt_step_retryable[OF assms, of 0 3]
    by (auto simp: exponentialBackoffFetch_def backoff_loop_unfold[of 0])
qed

lemma backoff_three_retry_twice:
  assumes "rate_limited (fetch p (fetches w)) \<or> rejected (fetch p (fetches w))"
      and "rate_limited (fetch p (Suc (fetches w))) \<or> rejected (fetch p (Suc (fetches w)))"
  shows "fetches (snd (exponentialBackoffFetch p req 3 w)) = fetches w + 3"
proof -
  have "int (Suc (Suc 0)) < 3" by simp
  from backoff_loop_trace[OF this, of p req "sleep p (Suc 0) (issue req (sleep p 0 (issue req w)))"]
  show ?thesis
    using attempt_step_retryable[OF assms(1), of 0 3]
          attempt_step_retryable[OF assms(2), of "Suc 0" 3]
    by (auto simp: exponentialBackoffFetch_def backoff_loop_unfold[of 0]
          backoff_loop_unfold[of "Suc 0"])
qed

lemma backoff_three_all_fail:
  assumes "failed (fetch p (fetches w))" "failed (fetch p (Suc (fetches w)))"
      and "failed (fetch p (Suc (Suc (fetches w))))"
  shows "fst (exponentialBackoffFetch p req 3 w) = Threw (error_of (fetch p (Suc (Suc (fetches w)))))"
    and "fetches (snd (exponentialBackoffFetch p req 3 w)) = fetches w + 3"
  using attempt_step_failed[OF assms(1), of 0 3] attempt_step_failed[OF assms(2), of "Suc 0" 3]
        attempt_step_failed_last[OF assms(3), of "Suc (Suc 0)" 3]
  by (simp_all add: exponentialBackoffFetch_def backoff_loop_unfold)

text \<open>
  Claim C2. With the default \<open>maxRetries = 3\<close>: on the outcomes 429, 429, ok the call
  returns the ok response after exactly 3 attempts; no call makes more than 3 attempts,
  and a 429 or a rejection of \<open>fetch\<close> on the first attempt, and again on the second, is
  followed by another attempt; when all 3 attempts fail, the error of the last attempt is
  thrown.
\<close>

theorem exponentialBackoffFetch_three_attempts:
  "(\<forall>r0 r1 r2.
      fetch p (fetches w) = Resolved r0 \<and> \<not> ok r0 \<and> status r0 = 429 \<and>
      fetch p (Suc (fetches w)) = Resolved r1 \<and> \<not> ok r1 \<and> status r1 = 429 \<and>
      fetch p (Suc (Suc (fetches w))) = Resolved r2 \<and> ok r2 \<longrightarrow>
      fst (exponentialBackoffFetch p req 3 w) = Returned r2 \<and>
      fetches (snd (exponentialBackoffFetch p req 3 w)) = fetches w + 3) \<and>
   fetches (snd (exponentialBackoffFetch p req 3 w)) \<le> fetches w + 3 \<and>
   (rate_limited (fetch p (fetches w)) \<or> rejected (fetch p (fetches w)) \<longrightarrow>
      fetches w + 2 \<le> fetches (snd (exponentialBackoffFetch p req 3 w))) \<and>
   ((rate_limited (fetch p (fetches w)) \<or> rejected (fetch p (fetches w))) \<and>
    (rate_limited (fetch p (Suc (fetches w))) \<or> rejected (fetch p (Suc (fetches w)))) \<longrightarrow>
      fetches (snd (exponentialBackoffFetch p req 3 w)) = fetches w + 3) \<and>
   (failed (fetch p (fetches w)) \<and> failed (fetch p (Suc (fetches w))) \<and>
    failed (fetch p (Suc (Suc (fetches w)))) \<longrightarrow>
      fst (exponentialBackoffFetch p req 3 w) =
        Threw (error_of (fetch p (Suc (Suc (fetches w))))) \<and>
      fetches (snd (exponentialBackoffFetch p req 3 w)) = fetches w + 3)"
proof (intro conjI allI impI)
  fix r0 r1 r2
  assume a: "fetch p (fetches w) = Resolved r0 \<and> \<not> ok r0 \<and> status r0 = 429 \<and>
      fetch p (Suc (fetches w)) = Resolved r1 \<and> \<not> ok r1 \<and> status r1 = 429 \<and>
      fetch p (Suc (Suc (fetches w))) = Resolved r2 \<and> ok r2"
  then show "fst (exponentialBackoffFetch p req 3 w) = Returned r2"
    by (intro backoff_three_429_429_ok(1)[of p w r0 r1 r2]) simp_all
  from a show "fetches (snd (exponentialBackoffFetch p req 3 w)) = fetches w + 3"
    by (intro backoff_three_429_429_ok(2)[of p w r0 r1 r2]) simp_all
next
  show "fetches (snd (exponentialBackoffFetch p req 3 w)) \<le> fetches w + 3"
    using backoff_at_most_max[of 3 p req w] by simp
next
  assume "rate_limited (fetch p (fetches w)) \<or> rejected (fetch p (fetches w))"
  then show "fetches w + 2 \<le> fetches (snd (exponentialBackoffFetch p req 3 w))"
    by (rule backoff_three_retry_once)
next
  assume "(rate_limited (fetch p (fetches w)) \<or> rejected (fetch p (fetches w))) \<and>
    (rate_limited (fetch p (Suc (fetches w))) \<or> rejected (fetch p (Suc (fetches w))))"
  then show "fetches (snd (exponentialBackoffFetch p req 3 w)) = fetches w + 3"
    by (intro backoff_three_retry_twice) simp_all
next
  assume a: "failed (fetch p (fetches w)) \<and> failed (fetch p (Suc (fetches w))) \<and>
    failed (fetch p (Suc (Suc (fetches w))))"
  then show "fst (exponentialBackoffFetch p req 3 w) =
        Threw (error_of (fetch p (Suc (Suc (fetches w)))))"
    by (intro backoff_three_all_fail(1)) simp_all
  from a show "fetches (snd (exponentialBackoffFetch p req 3 w)) = fetches w + 3"
    by (intro backoff_three_all_fail(2)) simp_all
qed

theorem exponentialBackoffFetch_three_attempts_witness:
  "fetch (demo_env [Resolved (http_response 429 ''Too Many Requests'' JNull),
                    Resolved (http_response 429 ''Too Many Requests'' JNull),
                    Resolved (http_response 200 ''OK'' JNull)] []) (fetches fresh) =
     Resolved (http_response 429 ''Too Many Requests'' JNull) \<and>
   rate_limited (Resolved (http_response 429 ''Too Many Requests'' JNull)) \<and>
   ok (http_response 200 ''OK'' JNull) \<and>
   fst (exponentialBackoffFetch
          (demo_env [Resolved (http_response 429 ''Too Many Requests'' JNull),
                     Resolved (http_response 429 ''Too Many Requests'' JNull),
                     Resolved (http_response 200 ''OK'' JNull)] []) demo_request 3 fresh) =
     Returned (http_response 200 ''OK'' JNull) \<and>
   fetches (snd (exponentialBackoffFetch
          (demo_env [Resolved (http_response 429 ''Too Many Requests'' JNull),
                     Resolved (http_response 429 ''Too Many Requests'' JNull),
                     Resolved (http_response 200 ''OK'' JNull)] []) demo_request 3 fresh)) = 3 \<and>
   failed (fetch (demo_env [] []) (fetches fresh)) \<and>
   failed (fetch (demo_env [] []) (Suc (fetches fresh))) \<and>
   failed (fetch (demo_env [] []) (Suc (Suc (fetches fresh)))) \<and>
   rejected (fetch (demo_env [] []) (fetches fresh)) \<and>
   fst (exponentialBackoffFetch (demo_env [] []) demo_request 3 fresh) =
     Threw (Error ''Failed to fetch'') \<and>
   fetches (snd (exponentialBackoffFetch (demo_env [] []) demo_request 3 fresh)) = 3"
proof -
  let ?p = "demo_env [Resolved (http_response 429 ''Too Many Requests'' JNull),
                      Resolved (http_response 429 ''Too Many Requests'' JNull),
                      Resolved (http_response 200 ''OK'' JNull)] []"
  have hyps: "fetch ?p (fetches fresh) = Resolved (http_response 429 ''Too Many Requests'' JNull)"
    "rate_limited (Resolved (http_response 429 ''Too Many Requests'' JNull))"
    "ok (http_response 200 ''OK'' JNull)"
    "failed (fetch (demo_env [] []) (fetches fresh))"
    "failed (fetch (demo_env [] []) (Suc (fetches fresh)))"
    "failed (fetch (demo_env [] []) (Suc (Suc (fetches fresh))))"
    "rejected (fetch (demo_env [] []) (fetches fresh))"
    by (simp_all add: demo_env_def scripted_def http_response_def fresh_def rate_limited_def
          failed_def rejected_def)
  have vals: "fst (exponentialBackoffFetch ?p demo_request 3 fresh) =
      Returned (http_response 200 ''OK'' JNull)"
    "fetches (snd (exponentialBackoffFetch ?p demo_request 3 fresh)) = 3"
    "fst (exponentialBackoffFetch (demo_env [] []) demo_request 3 fresh) =
      Threw (Error ''Failed to fetch'')"
    "fetches (snd (exponentialBackoffFetch (demo_env [] []) demo_request 3 fresh)) = 3"
    by (simp_all add: eval_backoff)
  show ?thesis
    using hyps vals
      exponentialBackoffFetch_three_attempts[of ?p fresh demo_request]
      exponentialBackoffFetch_three_attempts[of "demo_env [] []" fresh demo_request]
    by blast
qed

subsection \<open>The delays\<close>

text \<open>
  Claim C8. The delay before the retry that follows attempt \<open>k\<close> is \<open>2^k * 1000\<close>
  milliseconds plus a jitter \<open>Math.random() * 500\<close>, which lies in \<open>[0, 500)\<close> as
  \<open>Math.random()\<close> lies in \<open>[0, 1)\<close>; the base doubles from one attempt to the next, and
  one delay separates two successive attempts.
\<close>

theorem exponentialBackoffFetch_delays:
  assumes rnd: "\<forall>n. 0 \<le> random p n \<and> random p n < 1"
  shows "timeouts (snd (exponentialBackoffFetch p req maxRetries w)) =
           timeouts w @ new_timeouts w (snd (exponentialBackoffFetch p req maxRetries w)) \<and>
         (1 \<le> maxRetries \<longrightarrow>
            fetches (snd (exponentialBackoffFetch p req maxRetries w)) =
              fetches w + Suc (length (new_timeouts w (snd (exponentialBackoffFetch p req maxRetries w))))) \<and>
         (\<forall>k < length (new_timeouts w (snd (exponentialBackoffFetch p req maxRetries w))).
            new_timeouts w (snd (exponentialBackoffFetch p req maxRetries w)) ! k =
              2 ^ k * 1000 + random p (randoms w + k) * 500 \<and>
            0 \<le> random p (randoms w + k) * 500 \<and> random p (randoms w + k) * 500 < 500 \<and>
            backoff_delay (Suc k) 0 = 2 * backoff_delay k 0)"
proof (cases "1 \<le> maxRetries")
  case True
  then have "int (0::nat) < maxRetries" by simp
  from backoff_loop_trace[OF this, of p req w] obtain n where
    n: "fetches (snd (exponentialBackoffFetch p req maxRetries w)) = fetches w + Suc n"
       "timeouts (snd (exponentialBackoffFetch p req maxRetries w)) =
          timeouts w @ map (\<lambda>k. backoff_delay k (random p (randoms w + k))) [0..<n]"
    unfolding exponentialBackoffFetch_def by auto
  have ds: "new_timeouts w (snd (exponentialBackoffFetch p req maxRetries w)) =
          map (\<lambda>k. backoff_delay k (random p (randoms w + k))) [0..<n]"
    by (simp add: new_timeouts_def n(2))
  show ?thesis
    unfolding ds using n rnd by (simp add: backoff_delay_def)
next
  case False
  then have "exponentialBackoffFetch p req maxRetries w = (ReturnedUndefined, w)"
    by (simp add: exponentialBackoffFetch_def backoff_loop_exhausted)
  with False show ?thesis
    by (simp add: new_timeouts_def)
qed

theorem exponentialBackoffFetch_delays_witness:
  "(\<forall>n. 0 \<le> random (demo_env [Rejected (Error ''Failed to fetch''),
          Resolved (http_response 429 ''Too Many Requests'' JNull),
          Resolved (http_response 200 ''OK'' JNull)] []) n \<and>
        random (demo_env [Rejected (Error ''Failed to fetch''),
          Resolved (http_response 429 ''Too Many Requests'' JNull),
          Resolved (http_response 200 ''OK'' JNull)] []) n < 1) \<and>
   new_timeouts fresh (snd (exponentialBackoffFetch
      (demo_env [Rejected (Error ''Failed to fetch''),
          Resolved (http_response 429 ''Too Many Requests'' JNull),
          Resolved (http_response 200 ''OK'' JNull)] []) demo_request 3 fresh)) = [1250, 2250] \<and>
   new_timeouts fresh (snd (exponentialBackoffFetch
      (demo_env [Rejected (Error ''Failed to fetch''),
          Resolved (http_response 429 ''Too Many Requests'' JNull),
          Resolved (http_response 200 ''OK'' JNull)] []) demo_request 3 fresh)) ! 1 =
     2 ^ 1 * 1000 + random (demo_env [Rejected (Error ''Failed to fetch''),
          Resolved (http_response 429 ''Too Many Requests'' JNull),
          Resolved (http_response 200 ''OK'' JNull)] []) (randoms fresh + 1) * 500"
proof -
  let ?p = "demo_env [Rejected (Error ''Failed to fetch''),
          Resolved (http_response 429 ''Too Many Requests'' JNull),
          Resolved (http_response 200 ''OK'' JNull)] []"
  have h: "\<forall>n. 0 \<le> random ?p n \<and> random ?p n < 1"
    by (simp add: demo_env_def)
  have v: "new_timeouts fresh (snd (exponentialBackoffFetch ?p demo_request 3 fresh)) = [1250, 2250]"
    by (simp add: eval_backoff new_timeouts_def)
  have k: "new_timeouts fresh (snd (exponentialBackoffFetch ?p demo_request 3 fresh)) ! 1 =
     2 ^ 1 * 1000 + random ?p (randoms fresh + 1) * 500"
    unfolding v by (simp add: demo_env_def)
  show ?thesis
    using h v k exponentialBackoffFetch_delays[OF h, of demo_request 3 fresh]
    by blast
qed

section \<open>Properties of the selection\<close>

lemma string_of_nat_25: "string_of_nat MAX_FILES = ''25''"
  by (simp add: MAX_FILES_def string_of_nat.simps digit_char_def)

text \<open>
  Claim C5. When the size of the current selection plus the number of newly chosen image
  files exceeds 25, \<open>handleFileChange\<close> leaves the selection and the results as they
  were (no file of the addition is added, not even a prefix) and sets the limit message.
\<close>

theorem handleFileChange_over_cap:
  assumes "length (selectedFiles a) + length (filter (\<lambda>f. prefix ''image/'' (type f)) chosen) > 25"
  shows "selectedFiles (handleFileChange chosen a) = selectedFiles a \<and>
         results (handleFileChange chosen a) = results a \<and>
         loading (handleFileChange chosen a) = loading a \<and>
         app_error (handleFileChange chosen a) =
           Some ''Maximum of 25 photos allowed. Please select fewer files.''"
  using assms by (simp add: handleFileChange_def Let_def string_of_nat_25) (simp add: MAX_FILES_def)

theorem handleFileChange_over_cap_witness:
  "length (selectedFiles (demo_app (replicate 24 (photo ''a'')))) +
     length (filter (\<lambda>f. prefix ''image/'' (type f)) [photo ''b'', photo ''c'']) > 25 \<and>
   selectedFiles (handleFileChange [photo ''b'', photo ''c''] (demo_app (replicate 24 (photo ''a'')))) =
     replicate 24 (photo ''a'') \<and>
   app_error (handleFileChange [photo ''b'', photo ''c''] (demo_app (replicate 24 (photo ''a'')))) =
     Some ''Maximum of 25 photos allowed. Please select fewer files.''"
proof -
  have h: "length (selectedFiles (demo_app (replicate 24 (photo ''a'')))) +
     length (filter (\<lambda>f. prefix ''image/'' (type f)) [photo ''b'', photo ''c'']) > 25"
    by (simp add: demo_app_def photo_def)
  show ?thesis
    using h handleFileChange_over_cap[OF h] by (simp add: demo_app_def)
qed

lemma filter_enumerate_neq:
  "map snd (filter (\<lambda>(j, x). j \<noteq> k) (enumerate n xs)) =
     (if n \<le> k \<and> k < n + length xs then take (k - n) xs @ drop (Suc (k - n)) xs else xs)"
proof (induction xs arbitrary: n)
  case Nil
  then show ?case by simp
next
  case (Cons x xs)
  show ?case
  proof (cases "n = k")
    case True
    have "map snd (filter (\<lambda>(j, x). j \<noteq> k) (enumerate (Suc k) xs)) = xs"
      using Cons.IH[of "Suc k"] by simp
    with True show ?thesis by simp
  next
    case False
    show ?thesis
    proof (cases "n < k")
      case True
      then have d: "k - n = Suc (k - Suc n)" by simp
      from True show ?thesis
        using Cons.IH[of "Suc n"] by (auto simp: d)
    next
      case gt: False
      with False show ?thesis
        using Cons.IH[of "Suc n"] by auto
    qed
  qed
qed

lemma filter_index_remove:
  "filter_index (\<lambda>j. int j \<noteq> i) xs = remove_at i xs"
proof (cases "0 \<le> i")
  case True
  then have "(\<lambda>j. int j \<noteq> i) = (\<lambda>j. j \<noteq> nat i)" by auto
  then show ?thesis
    using True filter_enumerate_neq[of "nat i" 0 xs]
    by (auto simp: filter_index_def remove_at_def)
next
  case False
  then have "(\<lambda>j. int j \<noteq> i) = (\<lambda>j. True)" by auto
  then show ?thesis
    using False by (simp add: filter_index_def remove_at_def case_prod_unfold)
qed

text \<open>
  Claim C9. \<open>removeFile\<close> has no throwing step for any index. While a run is loading it
  does nothing; otherwise it clears the results and the selection loses the file at that
  position, the others keeping their order (an index outside the selection removes
  nothing).
\<close>

theorem removeFile_effect:
  "(loading a \<longrightarrow> removeFile i a = a) \<and>
   (\<not> loading a \<longrightarrow>
      results (removeFile i a) = [] \<and>
      selectedFiles (removeFile i a) = remove_at i (selectedFiles a) \<and>
      loading (removeFile i a) = loading a \<and>
      app_error (removeFile i a) = app_error a)"
  by (simp add: removeFile_def filter_index_remove)

theorem removeFile_effect_witness:
  "\<not> loading (demo_app [photo ''a'', photo ''b'', photo ''c'']) \<and>
   selectedFiles (removeFile 1 (demo_app [photo ''a'', photo ''b'', photo ''c''])) = [photo ''a'', photo ''c''] \<and>
   results (removeFile 1 (demo_app [photo ''a'', photo ''b'', photo ''c''])) = [] \<and>
   selectedFiles (removeFile 7 (demo_app [photo ''a'', photo ''b'', photo ''c''])) = [photo ''a'', photo ''b'', photo ''c''] \<and>
   loading ((demo_app [photo ''a''])\<lparr>loading := True\<rparr>) \<and>
   removeFile 0 ((demo_app [photo ''a''])\<lparr>loading := True\<rparr>) = (demo_app [photo ''a''])\<lparr>loading := True\<rparr>"
  using removeFile_effect[of "demo_app [photo ''a'', photo ''b'', photo ''c'']" 1]
        removeFile_effect[of "demo_app [photo ''a'', photo ''b'', photo ''c'']" 7]
        removeFile_effect[of "(demo_app [photo ''a''])\<lparr>loading := True\<rparr>" 0]
  by (simp add: demo_app_def remove_at_def)

section \<open>Properties of analyzeImages\<close>

subsection \<open>The credential check\<close>

lemmas eval_run =
  analyzeImages_def apiKey_def idle_def preprocess_all_def preprocess_def toBase64_def
  preprocess_done_def preprocess_failed_def no_metadata_def no_tags_def initial_result_def
  setResults_def loop_body_def build_request_def read_response_def caught_def errorMessage_def
  or_else_def demo_app_def photo_def model_reply_def literal_parse_def object_parse_def Let_def
  location_part_def exif_parts_def exif_metadata_def truthy_text_def two_photos_def
  first_unreadable_def one_readable_def started_def

lemma run_without_check:
  "app_error (ui (analyzeImages Mapper_LastModified [] (one_readable ''{}'') (demo_app [photo ''a'']) fresh)) = None"
  "fetches (world_of (analyzeImages Mapper_LastModified [] (one_readable ''{}'') (demo_app [photo ''a'']) fresh)) = 1"
  "reads (world_of (analyzeImages Mapper_LastModified [] (one_readable ''{}'') (demo_app [photo ''a'']) fresh)) = [photo ''a'']"
  "app_error (ui (analyzeImages Mapper_Plain [] (one_readable ''{}'') (demo_app [photo ''a'']) fresh)) = None"
  "fetches (world_of (analyzeImages Mapper_Plain [] (one_readable ''{}'') (demo_app [photo ''a'']) fresh)) = 1"
  "app_error (ui (analyzeImages Mapper_Exif [] (one_readable ''{}'') (demo_app []) fresh)) = None"
  by (simp_all add: eval_run eval_backoff)

text \<open>
  Claim C7 says that in every component a missing credential produces a blocking error
  and keeps the run from starting. The components without the check start the run
  with the credential absent: the file is read and a request is issued, and no error is
  set. In the component with the check an empty selection returns before the check.
\<close>

theorem analyzeImages_unchecked_key_counterexample:
  "apiKey Mapper_LastModified [] = [] \<and>
   app_error (ui (analyzeImages Mapper_LastModified [] (one_readable ''{}'') (demo_app [photo ''a'']) fresh)) = None \<and>
   fetches (world_of (analyzeImages Mapper_LastModified [] (one_readable ''{}'') (demo_app [photo ''a'']) fresh)) = 1 \<and>
   reads (world_of (analyzeImages Mapper_LastModified [] (one_readable ''{}'') (demo_app [photo ''a'']) fresh)) = [photo ''a''] \<and>
   apiKey Mapper_Plain [] = [] \<and>
   app_error (ui (analyzeImages Mapper_Plain [] (one_readable ''{}'') (demo_app [photo ''a'']) fresh)) = None \<and>
   fetches (world_of (analyzeImages Mapper_Plain [] (one_readable ''{}'') (demo_app [photo ''a'']) fresh)) = 1 \<and>
   app_error (ui (analyzeImages Mapper_Exif [] (one_readable ''{}'') (demo_app []) fresh)) = None"
  using run_without_check by (simp add: apiKey_def)

text \<open>
  Claim C7 as amended. In the component that checks the credential, when the selection
  is not empty and no run is loading, a missing credential sets the error message and the
  run does not start: no file is read, no request is issued, nothing is published, and
  the selection and the results stay as they were.
\<close>

theorem analyzeImages_missing_key:
  assumes "selectedFiles a \<noteq> []" "\<not> loading a"
  shows "app_error (ui (analyzeImages Mapper_Exif [] p a w)) =
           Some ''API Key Missing! Please set the VITE_GEMINI_API_KEY environment variable.'' \<and>
         world_of (analyzeImages Mapper_Exif [] p a w) = w \<and>
         published (analyzeImages Mapper_Exif [] p a w) = [] \<and>
         selectedFiles (ui (analyzeImages Mapper_Exif [] p a w)) = selectedFiles a \<and>
         results (ui (analyzeImages Mapper_Exif [] p a w)) = results a \<and>
         loading (ui (analyzeImages Mapper_Exif [] p a w)) = False"
  using assms by (simp add: analyzeImages_def apiKey_def idle_def)

theorem analyzeImages_missing_key_witness:
  "selectedFiles (demo_app [photo ''a'']) \<noteq> [] \<and> \<not> loading (demo_app [photo ''a'']) \<and>
   app_error (ui (analyzeImages Mapper_Exif [] (one_readable ''{}'') (demo_app [photo ''a'']) fresh)) =
     Some ''API Key Missing! Please set the VITE_GEMINI_API_KEY environment variable.'' \<and>
   world_of (analyzeImages Mapper_Exif [] (one_readable ''{}'') (demo_app [photo ''a'']) fresh) = fresh"
proof -
  have h: "selectedFiles (demo_app [photo ''a'']) \<noteq> []" "\<not> loading (demo_app [photo ''a''])"
    by (simp_all add: demo_app_def)
  show ?thesis
    using h analyzeImages_missing_key[OF h, of "one_readable ''{}''" fresh] by simp
qed

subsection \<open>The response of one inference call\<close>

lemma backoff_three_world:
  "\<exists>m. fetches (snd (exponentialBackoffFetch p req 3 w)) = fetches w + Suc m \<and>
       requests (snd (exponentialBackoffFetch p req 3 w)) = requests w @ replicate (Suc m) req \<and>
       reads (snd (exponentialBackoffFetch p req 3 w)) = reads w"
proof -
  have "int (0::nat) < 3" by simp
  from backoff_loop_trace[OF this, of p req w] show ?thesis
    unfolding exponentialBackoffFetch_def by auto
qed

lemma truthy_or_else: "truthy b \<Longrightarrow> truthy (or_else a b)"
  by (simp add: or_else_def split: option.splits)

lemma truthy_errorMessage: "truthy (errorMessage apiResult)"
  by (simp add: errorMessage_def Let_def truthy_or_else)

lemma caught_shape: "fst (caught e) = JNull \<and> truthy (snd (caught e))"
  by (simp add: caught_def)

lemma read_response_shape:
  "snd (read_response p res) = JNull \<or>
   (truthy (snd (read_response p res)) \<and> fst (read_response p res) = JNull)"
  by (auto simp: read_response_def caught_def truthy_errorMessage Let_def
           split: fetch_result.splits sum.splits option.splits)

lemma read_response_non_null:
  assumes "\<forall>t. JSON_parse p t \<noteq> Inr JNull"
  shows "(fst (read_response p res) \<noteq> JNull \<and> snd (read_response p res) = JNull) \<noteq>
         truthy (snd (read_response p res))"
  using assms
  by (auto simp: read_response_def caught_def truthy_errorMessage Let_def
           split: fetch_result.splits sum.splits option.splits)

subsection \<open>One iteration of the loop\<close>


lemma loop_body_shape:
  obtains (skip) "truthy (pf_error (pfs ! n))" "loop_body v k p pfs n r = r"
  | (infer) res m where "\<not> truthy (pf_error (pfs ! n))"
      "currentResults (loop_body v k p pfs n r) =
         (currentResults r)[n := (currentResults r ! n)
            \<lparr>data := fst (read_response p res), error := snd (read_response p res),
             processing := False\<rparr>]"
      "published (loop_body v k p pfs n r) =
         published r @ [currentResults (loop_body v k p pfs n r)]"
      "ui (loop_body v k p pfs n r) = (ui r)\<lparr>results := currentResults (loop_body v k p pfs n r)\<rparr>"
      "requests (world_of (loop_body v k p pfs n r)) =
         requests (world_of r) @ replicate (Suc m) (build_request v k p (pfs ! n))"
      "fetches (world_of (loop_body v k p pfs n r)) = fetches (world_of r) + Suc m"
      "reads (world_of (loop_body v k p pfs n r)) = reads (world_of r)"
proof (cases "truthy (pf_error (pfs ! n))")
  case True
  then show ?thesis by (intro skip) (simp_all add: loop_body_def)
next
  case False
  let ?req = "build_request v k p (pfs ! n)"
  let ?R = "exponentialBackoffFetch p ?req 3 (world_of r)"
  from backoff_three_world[of p ?req "world_of r"] obtain m where
    m: "fetches (snd ?R) = fetches (world_of r) + Suc m"
       "requests (snd ?R) = requests (world_of r) @ replicate (Suc m) ?req"
       "reads (snd ?R) = reads (world_of r)"
    by blast
  show ?thesis
    using False m
    by (intro infer[of "fst ?R" m])
       (simp_all add: loop_body_def setResults_def Let_def case_prod_unfold)
qed

lemma file_initial_results:
  "map file (map initial_result pfs) = map pf_file pfs"
  by (simp add: initial_result_def comp_def)

lemma frame_first:
  "frame (preprocess_all v p (selectedFiles a)) (first_run v k p a w) 0 (first_run v k p a w)"
  by (simp add: frame_def first_run_def setResults_def file_initial_results initial_result_def)

lemma map_file_settle:
  assumes "n < length cur"
  shows "map file (cur[n := (cur ! n)\<lparr>data := d, error := e, processing := False\<rparr>]) = map file cur"
  using assms by (simp add: map_update list_update_same_conv)

lemma frame_step:
  assumes n: "n < length pfs" and fr: "frame pfs r0 n r"
  shows "frame pfs r0 (Suc n) (loop_body v k p pfs n r)"
proof (cases rule: loop_body_shape[of pfs n v k p r])
  case skip
  with fr show ?thesis by (simp add: frame_def)
next
  case (infer res m)
  let ?r' = "loop_body v k p pfs n r"
  let ?cur = "currentResults r"
  from fr have len: "length ?cur = length pfs"
    and mem: "?cur \<in> set (published r)"
    and old: "\<forall>q \<in> set (published r). length q = length pfs \<and> map file q = map pf_file pfs \<and>
         (\<forall>j. n \<le> j \<and> j < length pfs \<longrightarrow> q ! j = initial_result (pfs ! j))"
    by (auto simp: frame_def dest: last_in_set)
  have len': "length (currentResults ?r') = length pfs"
    using len by (simp add: infer(2))
  have "map file (currentResults ?r') = map file ?cur"
    unfolding infer(2) using n len by (intro map_file_settle) simp
  with old mem have files': "map file (currentResults ?r') = map pf_file pfs"
    by simp
  have rest': "\<forall>j. Suc n \<le> j \<and> j < length pfs \<longrightarrow> currentResults ?r' ! j = initial_result (pfs ! j)"
    using old mem by (auto simp: infer(2))
  have new: "\<forall>q \<in> set (published ?r'). length q = length pfs \<and> map file q = map pf_file pfs \<and>
         (\<forall>j. Suc n \<le> j \<and> j < length pfs \<longrightarrow> q ! j = initial_result (pfs ! j))"
    using old len' files' rest' by (auto simp: infer(3))
  have ui': "selectedFiles (ui ?r') = selectedFiles (ui r0)" "loading (ui ?r') = loading (ui r0)"
    "app_error (ui ?r') = app_error (ui r0)" "results (ui ?r') = currentResults ?r'"
    using fr by (simp_all add: infer(4) frame_def)
  have rd: "reads (world_of ?r') = reads (world_of r0)"
    using fr by (simp add: infer(7) frame_def)
  show ?thesis
    unfolding frame_def using len' new ui' rd by (simp add: infer(3))
qed

lemma each_below_step:
  assumes n: "n < length pfs" and fr: "frame pfs r0 n r" and eb: "each_below Q n r"
    and failedQ: "\<And>pf. truthy (pf_error pf) \<Longrightarrow> Q (initial_result pf)"
    and inferQ: "\<And>x res. Q (x\<lparr>data := fst (read_response p res),
                                 error := snd (read_response p res), processing := False\<rparr>)"
  shows "each_below Q (Suc n) (loop_body v k p pfs n r)"
proof (cases rule: loop_body_shape[of pfs n v k p r])
  case skip
  from fr have "currentResults r \<in> set (published r)"
    by (auto simp: frame_def dest: last_in_set)
  with fr n have "currentResults r ! n = initial_result (pfs ! n)"
    by (auto simp: frame_def)
  with skip eb failedQ[of "pfs ! n"] show ?thesis
    by (auto simp: each_below_def less_Suc_eq)
next
  case (infer res m)
  from fr n have len: "n < length (currentResults r)" by (simp add: frame_def)
  show ?thesis
    unfolding each_below_def infer(2)
    using eb len inferQ[where x = "currentResults r ! n" and res = res]
    by (auto simp: each_below_def less_Suc_eq nth_list_update)
qed

lemma terminal_count_settle:
  "terminal_count cur \<le>
   terminal_count (cur[n := (cur ! n)\<lparr>data := d, error := e, processing := False\<rparr>])"
proof (induction cur arbitrary: n)
  case Nil
  show ?case by simp
next
  case (Cons x xs)
  show ?case
  proof (cases n)
    case 0
    then show ?thesis by (simp add: terminal_count_def)
  next
    case (Suc m)
    with Cons.IH[of m] show ?thesis by (simp add: terminal_count_def)
  qed
qed

lemma rising_step:
  assumes "rising r"
  shows "rising (loop_body v k p pfs n r)"
proof (cases rule: loop_body_shape[of pfs n v k p r])
  case skip
  with assms show ?thesis by simp
next
  case (infer res m)
  let ?r' = "loop_body v k p pfs n r"
  have le: "terminal_count (currentResults r) \<le> terminal_count (currentResults ?r')"
    unfolding infer(2) by (rule terminal_count_settle)
  with assms have all: "\<forall>q \<in> set (published r). terminal_count q \<le> terminal_count (currentResults ?r')"
    by (auto simp: rising_def intro: order_trans)
  with assms show ?thesis
    by (simp add: rising_def infer(3) sorted_append)
qed

lemma anchored_step:
  assumes n: "n < length pfs" and fr: "frame pfs r0 n r" and an: "anchored (length pfs) r"
  shows "anchored (length pfs) (loop_body v k p pfs n r)"
proof (cases rule: loop_body_shape[of pfs n v k p r])
  case skip
  with an show ?thesis by simp
next
  case (infer res m)
  let ?r' = "loop_body v k p pfs n r"
  let ?N = "length pfs"
  let ?pubs = "published r"
  have fresh_n: "processing (q ! n)" if "q \<in> set ?pubs" for q
  proof -
    from fr that n have "q ! n = initial_result (pfs ! n)" by (auto simp: frame_def)
    with infer(1) show ?thesis by (simp add: initial_result_def)
  qed
  have keep: "currentResults ?r' ! i = q ! i"
    if "q \<in> set ?pubs" "i < ?N" "\<not> processing (q ! i)" for q i
  proof -
    from that fresh_n have "i \<noteq> n" by auto
    then have "currentResults ?r' ! i = currentResults r ! i" by (simp add: infer(2))
    with an that show ?thesis by (simp add: anchored_def)
  qed
  have fin: "final_items ?N (?pubs @ [currentResults ?r'])"
    unfolding final_items_def
  proof (intro allI impI)
    fix a l i
    assume h: "a \<le> l \<and> l < length (?pubs @ [currentResults ?r']) \<and> i < ?N \<and>
               \<not> processing ((?pubs @ [currentResults ?r']) ! a ! i)"
    show "(?pubs @ [currentResults ?r']) ! l ! i = (?pubs @ [currentResults ?r']) ! a ! i"
    proof (cases "l < length ?pubs")
      case True
      with h have "a < length ?pubs" by simp
      with True h an show ?thesis by (simp add: anchored_def final_items_def nth_append)
    next
      case False
      with h have l: "l = length ?pubs" by simp
      show ?thesis
      proof (cases "a < length ?pubs")
        case True
        with h keep[of "?pubs ! a" i] l show ?thesis by (simp add: nth_append)
      next
        case False
        with h l have "a = l" by simp
        then show ?thesis by simp
      qed
    qed
  qed
  have "\<forall>q \<in> set (?pubs @ [currentResults ?r']). \<forall>i < ?N. \<not> processing (q ! i) \<longrightarrow>
          currentResults ?r' ! i = q ! i"
    using keep by auto
  with fin show ?thesis by (simp add: anchored_def infer(3))
qed

lemma sent_step:
  assumes "sent v k p pfs n r"
  shows "sent v k p pfs (Suc n) (loop_body v k p pfs n r)"
proof (cases rule: loop_body_shape[of pfs n v k p r])
  case skip
  with assms show ?thesis by (auto simp: sent_def less_Suc_eq)
next
  case (infer res m)
  with assms show ?thesis by (auto simp: sent_def less_Suc_eq)
qed

lemma kept_step:
  assumes "kept pfs r"
  shows "kept pfs (loop_body v k p pfs n r)"
proof (cases rule: loop_body_shape[of pfs n v k p r])
  case skip
  with assms show ?thesis by simp
next
  case (infer res m)
  have "currentResults (loop_body v k p pfs n r) ! j = currentResults r ! j"
    if "truthy (pf_error (pfs ! j))" for j
  proof -
    from that infer(1) have "j \<noteq> n" by auto
    then show ?thesis by (simp add: infer(2))
  qed
  with assms show ?thesis by (simp add: kept_def)
qed

lemma length_preprocess_all [simp]: "length (preprocess_all v p fs) = length fs"
  by (simp add: preprocess_all_def)

lemma nth_preprocess_all:
  "j < length fs \<Longrightarrow> preprocess_all v p fs ! j = preprocess v p j (fs ! j)"
  by (simp add: preprocess_all_def nth_enumerate_eq)

lemma pf_file_preprocess [simp]: "pf_file (preprocess v p i f) = f"
  by (simp add: preprocess_def preprocess_failed_def preprocess_done_def Let_def
           split: sum.splits variant.splits)

text \<open>Preprocessing ends with a \<open>null\<close> error or with a message; a failing reader is one
  way to the message.\<close>

lemma pf_error_preprocess:
  "pf_error (preprocess v p i f) = JNull \<or> truthy (pf_error (preprocess v p i f))"
  by (simp add: preprocess_def preprocess_failed_def preprocess_done_def Let_def
           split: sum.splits variant.splits)

lemma preprocess_reader_failure:
  "readAsDataURL p i = Inl e \<Longrightarrow> truthy (pf_error (preprocess v p i f))"
  by (simp add: preprocess_def toBase64_def preprocess_failed_def)

lemma pf_files_preprocess_all: "map pf_file (preprocess_all v p fs) = fs"
  by (rule nth_equalityI) (simp_all add: nth_preprocess_all)

lemma settled_failed: "truthy (pf_error pf) \<Longrightarrow> settled (initial_result pf)"
  by (simp add: settled_def errored_def initial_result_def)

lemma terminal_failed: "truthy (pf_error pf) \<Longrightarrow> terminal (initial_result pf)"
  by (simp add: terminal_def succeeded_def errored_def initial_result_def)

lemma settled_inferred:
  "settled (x\<lparr>data := fst (read_response p res), error := snd (read_response p res),
              processing := False\<rparr>)"
  using read_response_shape[of p res] by (auto simp: settled_def errored_def)

lemma terminal_inferred:
  assumes "\<forall>t. JSON_parse p t \<noteq> Inr JNull"
  shows "terminal (x\<lparr>data := fst (read_response p res), error := snd (read_response p res),
                     processing := False\<rparr>)"
  using read_response_non_null[OF assms, of res]
  by (simp add: terminal_def succeeded_def errored_def)

subsection \<open>The whole loop\<close>

lemma fold_upt_invariant:
  assumes "P 0 r0" and step: "\<And>n r. n < N \<Longrightarrow> P n r \<Longrightarrow> P (Suc n) (f n r)"
  shows "P N (fold f [0..<N] r0)"
proof -
  have "n \<le> N \<Longrightarrow> P n (fold f [0..<n] r0)" for n
  proof (induction n)
    case 0
    show ?case using assms(1) by simp
  next
    case (Suc n)
    then show ?case using step[of n "fold f [0..<n] r0"] by simp
  qed
  then show ?thesis by simp
qed

lemma all_invariants_first:
  "all_invariants v k p (preprocess_all v p (selectedFiles a)) (first_run v k p a w) 0
     (first_run v k p a w)"
proof -
  let ?pfs = "preprocess_all v p (selectedFiles a)"
  let ?r0 = "first_run v k p a w"
  have pub: "published ?r0 = [currentResults ?r0]"
    and cur: "currentResults ?r0 = map initial_result ?pfs"
    by (simp_all add: first_run_def setResults_def)
  have "rising ?r0" by (simp add: rising_def pub)
  moreover have "anchored (length ?pfs) ?r0"
    by (simp add: anchored_def final_items_def pub)
  moreover have "kept ?pfs ?r0" by (simp add: kept_def cur)
  ultimately show ?thesis
    using frame_first[of v p a k w]
    by (simp add: all_invariants_def each_below_def sent_def)
qed

lemma all_invariants_step:
  assumes "n < length pfs" "all_invariants v k p pfs r0 n r"
  shows "all_invariants v k p pfs r0 (Suc n) (loop_body v k p pfs n r)"
proof -
  from assms(2) have fr: "frame pfs r0 n r" by (simp add: all_invariants_def)
  have "frame pfs r0 (Suc n) (loop_body v k p pfs n r)"
    using assms(1) fr by (rule frame_step)
  moreover have "each_below settled (Suc n) (loop_body v k p pfs n r)"
    using assms fr
    by (intro each_below_step[of n pfs r0 r settled p v k] settled_failed settled_inferred)
       (simp_all add: all_invariants_def)
  moreover have "rising (loop_body v k p pfs n r)"
    using assms(2) by (intro rising_step) (simp add: all_invariants_def)
  moreover have "anchored (length pfs) (loop_body v k p pfs n r)"
    using assms fr by (intro anchored_step[of n pfs r0]) (simp_all add: all_invariants_def)
  moreover have "sent v k p pfs (Suc n) (loop_body v k p pfs n r)"
    using assms(2) by (intro sent_step) (simp add: all_invariants_def)
  moreover have "kept pfs (loop_body v k p pfs n r)"
    using assms(2) by (intro kept_step) (simp add: all_invariants_def)
  moreover have "each_below terminal (Suc n) (loop_body v k p pfs n r)"
    if "\<forall>t. JSON_parse p t \<noteq> Inr JNull"
    using assms fr that
    by (intro each_below_step[of n pfs r0 r terminal p v k] terminal_failed terminal_inferred)
       (simp_all add: all_invariants_def)
  ultimately show ?thesis by (simp add: all_invariants_def)
qed

lemma all_invariants_end:
  "all_invariants v k p (preprocess_all v p (selectedFiles a)) (first_run v k p a w)
     (length (selectedFiles a)) (loop_end v k p a w)"
  unfolding loop_end_def
  using fold_upt_invariant[of "all_invariants v k p (preprocess_all v p (selectedFiles a))
      (first_run v k p a w)" "first_run v k p a w" "length (selectedFiles a)"
      "loop_body v k p (preprocess_all v p (selectedFiles a))"]
    all_invariants_first[of v k p a w] all_invariants_step[of _ "preprocess_all v p (selectedFiles a)" v k p]
  by simp

lemma analyzeImages_started:
  "started v k a \<Longrightarrow>
   analyzeImages v k p a w = (loop_end v k p a w)\<lparr>ui := (ui (loop_end v k p a w))\<lparr>loading := False\<rparr>\<rparr>"
  by (auto simp: analyzeImages_def started_def loop_end_def first_run_def Let_def)

lemma analyzeImages_not_started:
  "\<not> started v k a \<Longrightarrow> published (analyzeImages v k p a w) = []"
  by (auto simp: analyzeImages_def started_def idle_def)

lemma loop_end_facts:
  fixes v k p a w
  defines "N \<equiv> length (selectedFiles a)" and "E \<equiv> loop_end v k p a w"
    and "pfs \<equiv> preprocess_all v p (selectedFiles a)"
  shows "length (currentResults E) = N"
    and "results (ui E) = currentResults E"
    and "published E \<noteq> []"
    and "last (published E) = currentResults E"
    and "\<forall>q \<in> set (published E). length q = N \<and> map file q = selectedFiles a"
    and "selectedFiles (ui E) = selectedFiles a"
    and "app_error (ui E) = None"
    and "reads (world_of E) = reads w @ selectedFiles a"
    and "\<forall>j < N. settled (currentResults E ! j)"
    and "(\<forall>t. JSON_parse p t \<noteq> Inr JNull) \<longrightarrow> (\<forall>j < N. terminal (currentResults E ! j))"
    and "sorted (map terminal_count (published E))"
    and "final_items N (published E)"
    and "\<forall>j < N. \<not> truthy (pf_error (pfs ! j)) \<longrightarrow>
           build_request v k p (pfs ! j) \<in> set (requests (world_of E))"
    and "\<forall>j < N. truthy (pf_error (pfs ! j)) \<longrightarrow> currentResults E ! j = initial_result (pfs ! j)"
proof -
  have inv: "all_invariants v k p pfs (first_run v k p a w) N E"
    unfolding N_def E_def pfs_def by (rule all_invariants_end)
  have r0: "selectedFiles (ui (first_run v k p a w)) = selectedFiles a"
    "app_error (ui (first_run v k p a w)) = None"
    "reads (world_of (first_run v k p a w)) = reads w @ selectedFiles a"
    by (simp_all add: first_run_def setResults_def)
  have len: "length pfs = N" by (simp add: pfs_def N_def)
  have files: "map pf_file pfs = selectedFiles a"
    by (simp add: pfs_def pf_files_preprocess_all)
  from inv have fr: "frame pfs (first_run v k p a w) N E" by (simp add: all_invariants_def)
  from fr len show "length (currentResults E) = N" by (simp add: frame_def)
  from fr show "results (ui E) = currentResults E" by (simp add: frame_def)
  from fr show "published E \<noteq> []" by (simp add: frame_def)
  from fr show "last (published E) = currentResults E" by (simp add: frame_def)
  from fr len files show "\<forall>q \<in> set (published E). length q = N \<and> map file q = selectedFiles a"
    by (simp add: frame_def)
  from fr r0 show "selectedFiles (ui E) = selectedFiles a" by (simp add: frame_def)
  from fr r0 show "app_error (ui E) = None" by (simp add: frame_def)
  from fr r0 show "reads (world_of E) = reads w @ selectedFiles a" by (simp add: frame_def)
  from inv show "\<forall>j < N. settled (currentResults E ! j)"
    by (simp add: all_invariants_def each_below_def)
  from inv show "(\<forall>t. JSON_parse p t \<noteq> Inr JNull) \<longrightarrow> (\<forall>j < N. terminal (currentResults E ! j))"
    by (simp add: all_invariants_def each_below_def)
  from inv show "sorted (map terminal_count (published E))"
    by (simp add: all_invariants_def rising_def)
  from inv len show "final_items N (published E)"
    by (simp add: all_invariants_def anchored_def)
  from inv show "\<forall>j < N. \<not> truthy (pf_error (pfs ! j)) \<longrightarrow>
           build_request v k p (pfs ! j) \<in> set (requests (world_of E))"
    by (simp add: all_invariants_def sent_def)
  from inv len show "\<forall>j < N. truthy (pf_error (pfs ! j)) \<longrightarrow>
      currentResults E ! j = initial_result (pfs ! j)"
    by (simp add: all_invariants_def kept_def)
qed

lemma run_null_reply:
  "results (ui (analyzeImages Mapper_Exif ''k'' (one_readable ''null'') (demo_app [photo ''a'']) fresh)) =
     [\<lparr>file = photo ''a'', data = JNull, error = JNull, processing = False,
       metadata = Some no_metadata\<rparr>]"
  by (simp add: eval_run eval_backoff)

lemma run_first_unreadable:
  "results (ui (analyzeImages Mapper_Exif ''k'' ((first_unreadable ''{}'')\<lparr>JSON_parse := object_parse\<rparr>) two_photos fresh)) =
     [\<lparr>file = photo ''a'', data = JNull, error = JStr ''Failed to read file'', processing = False,
       metadata = None\<rparr>,
      \<lparr>file = photo ''b'', data = JObj [], error = JNull, processing = False,
       metadata = Some no_metadata\<rparr>]"
  "map terminal_count (published (analyzeImages Mapper_Exif ''k'' ((first_unreadable ''{}'')\<lparr>JSON_parse := object_parse\<rparr>) two_photos fresh)) = [1, 2]"
  "requests (world_of (analyzeImages Mapper_Exif ''k'' ((first_unreadable ''{}'')\<lparr>JSON_parse := object_parse\<rparr>) two_photos fresh)) =
     [\<lparr>url = API_URL @ ''k'',
       payload_of = \<lparr>prompt = ''Live Painting, Sound Healing | No additional metadata available.'',
                     mimeType = ''image/jpeg'', inlineData = Some ''AAAA''\<rparr>\<rparr>]"
  by (simp_all add: eval_run eval_backoff terminal_count_def)

subsection \<open>The outcome of each item\<close>

lemma read_response_reply:
  "reply_value p res = Some parsed \<Longrightarrow>
     fst (read_response p res) = parsed \<and> snd (read_response p res) = JNull"
  "reply_value p res = None \<Longrightarrow>
     fst (read_response p res) = JNull \<and> truthy (snd (read_response p res))"
  by (auto simp: read_response_def reply_value_def jsonText_of_def caught_def
        truthy_errorMessage Let_def
        split: fetch_result.splits sum.splits option.splits if_splits)

lemma loop_upto_0: "loop_upto v k p a w 0 = first_run v k p a w"
  by (simp add: loop_upto_def)

lemma loop_upto_Suc:
  "loop_upto v k p a w (Suc n) =
     loop_body v k p (preprocess_all v p (selectedFiles a)) n (loop_upto v k p a w n)"
  by (simp add: loop_upto_def)

lemma loop_end_upto: "loop_end v k p a w = loop_upto v k p a w (length (selectedFiles a))"
  by (simp add: loop_end_def loop_upto_def)

lemma all_invariants_upto:
  "n \<le> length (selectedFiles a) \<Longrightarrow>
   all_invariants v k p (preprocess_all v p (selectedFiles a)) (first_run v k p a w) n
     (loop_upto v k p a w n)"
proof (induction n)
  case 0
  show ?case by (simp add: loop_upto_0 all_invariants_first)
next
  case (Suc n)
  then show ?case
    using all_invariants_step[of n "preprocess_all v p (selectedFiles a)" v k p
            "first_run v k p a w" "loop_upto v k p a w n"]
    by (simp add: loop_upto_Suc)
qed

lemma currentResults_loop_body:
  "currentResults (loop_body v k p pfs j r) =
     (if truthy (pf_error (pfs ! j)) then currentResults r
      else (currentResults r)
             [j := (currentResults r ! j)
                \<lparr>data := fst (read_response p (fst (exponentialBackoffFetch p
                            (build_request v k p (pfs ! j)) 3 (world_of r)))),
                 error := snd (read_response p (fst (exponentialBackoffFetch p
                            (build_request v k p (pfs ! j)) 3 (world_of r)))),
                 processing := False\<rparr>])"
  by (simp add: loop_body_def setResults_def Let_def case_prod_unfold)

lemma untouched_at:
  assumes "j < length (selectedFiles a)"
  shows "currentResults (loop_upto v k p a w j) ! j =
           initial_result (preprocess v p j (selectedFiles a ! j))"
    and "length (currentResults (loop_upto v k p a w j)) = length (selectedFiles a)"
proof -
  let ?pfs = "preprocess_all v p (selectedFiles a)"
  let ?r = "loop_upto v k p a w j"
  from assms have "all_invariants v k p ?pfs (first_run v k p a w) j ?r"
    by (intro all_invariants_upto) simp
  then have fr: "frame ?pfs (first_run v k p a w) j ?r" by (simp add: all_invariants_def)
  then have "currentResults ?r \<in> set (published ?r)"
    by (auto simp: frame_def dest: last_in_set)
  with fr assms have "currentResults ?r ! j = initial_result (?pfs ! j)"
    by (auto simp: frame_def)
  with assms show "currentResults ?r ! j = initial_result (preprocess v p j (selectedFiles a ! j))"
    by (simp add: nth_preprocess_all)
  from fr show "length (currentResults ?r) = length (selectedFiles a)"
    by (simp add: frame_def)
qed

lemma later_steps_keep:
  "j < m \<Longrightarrow>
   currentResults (loop_upto v k p a w m) ! j = currentResults (loop_upto v k p a w (Suc j)) ! j"
proof (induction m)
  case 0
  then show ?case by simp
next
  case (Suc m)
  show ?case
  proof (cases "j = m")
    case True
    then show ?thesis by simp
  next
    case False
    with Suc.prems have lt: "j < m" by simp
    have "currentResults (loop_upto v k p a w (Suc m)) ! j = currentResults (loop_upto v k p a w m) ! j"
      using False by (simp add: loop_upto_Suc currentResults_loop_body)
    with Suc.IH[OF lt] show ?thesis by simp
  qed
qed

lemma own_outcome_step:
  assumes "j < length (selectedFiles a)"
  shows "own_outcome v k p a w j (currentResults (loop_upto v k p a w (Suc j)) ! j)"
proof -
  let ?pf = "preprocess v p j (selectedFiles a ! j)"
  let ?r = "loop_upto v k p a w j"
  note u = untouched_at[OF assms, of v k p w]
  have nth: "preprocess_all v p (selectedFiles a) ! j = ?pf"
    using assms by (rule nth_preprocess_all)
  show ?thesis
  proof (cases "truthy (pf_error ?pf)")
    case True
    then show ?thesis
      using u by (simp add: loop_upto_Suc currentResults_loop_body nth own_outcome_def
            initial_result_def)
  next
    case False
    let ?res = "call_result v k p a w j"
    have cur: "currentResults (loop_upto v k p a w (Suc j)) ! j =
        (initial_result ?pf)\<lparr>data := fst (read_response p ?res),
           error := snd (read_response p ?res), processing := False\<rparr>"
      using False u assms
      by (simp add: loop_upto_Suc currentResults_loop_body nth call_result_def)
    show ?thesis
    proof (cases "reply_value p ?res")
      case None
      with read_response_reply(2)[of p ?res] False show ?thesis
        by (simp add: cur own_outcome_def initial_result_def errored_def)
    next
      case (Some parsed)
      with read_response_reply(1)[of p ?res parsed] False show ?thesis
        by (simp add: cur own_outcome_def initial_result_def)
    qed
  qed
qed

lemma own_outcome_end:
  assumes "j < length (selectedFiles a)"
  shows "own_outcome v k p a w j (currentResults (loop_end v k p a w) ! j)"
  using own_outcome_step[OF assms, of v k p w] later_steps_keep[OF assms, of v k p a w]
  by (simp add: loop_end_upto)

lemma own_outcome_terminal:
  "own_outcome v k p a w j x \<Longrightarrow> terminal x = (\<not> null_reply v k p a w j)"
  by (auto simp: own_outcome_def null_reply_def terminal_def succeeded_def errored_def
           split: if_splits option.splits)


lemmas eval_loop = loop_upto_def first_run_def call_result_def reply_value_def jsonText_of_def
  null_reply_def

lemma run_plain:
  "results (ui (analyzeImages Mapper_Exif ''k'' (first_unreadable ''{}'') two_photos fresh)) =
     [\<lparr>file = photo ''a'', data = JNull, error = JStr ''Failed to read file'', processing = False,
       metadata = None\<rparr>,
      \<lparr>file = photo ''b'', data = JObj [], error = JNull, processing = False,
       metadata = Some no_metadata\<rparr>]"
  "reply_value (first_unreadable ''{}'')
     (call_result Mapper_Exif ''k'' (first_unreadable ''{}'') two_photos fresh 1) = Some (JObj [])"
  "truthy (pf_error (preprocess Mapper_Exif (first_unreadable ''{}'') 0 (selectedFiles two_photos ! 0)))"
  "\<not> truthy (pf_error (preprocess Mapper_Exif (first_unreadable ''{}'') 1 (selectedFiles two_photos ! 1)))"
  by (simp_all add: eval_run eval_backoff eval_loop)


subsection \<open>Terminal states\<close>

text \<open>
  Claim C3 says that after a run every item is in exactly one terminal state, its data set
  with a \<open>null\<close> error or its error set. The code stores whatever \<open>JSON.parse\<close> returns and
  checks no shape: when the text of the model is the JSON literal \<open>null\<close>, the item ends
  with \<open>processing\<close> false and both data and error \<open>null\<close>.
\<close>

theorem analyzeImages_null_reply_counterexample:
  "started Mapper_Exif ''k'' (demo_app [photo ''a'']) \<and>
   length (selectedFiles (demo_app [photo ''a''])) \<le> 25 \<and>
   \<not> processing (results (ui (analyzeImages Mapper_Exif ''k'' (one_readable ''null'')
        (demo_app [photo ''a'']) fresh)) ! 0) \<and>
   data (results (ui (analyzeImages Mapper_Exif ''k'' (one_readable ''null'')
        (demo_app [photo ''a'']) fresh)) ! 0) = JNull \<and>
   error (results (ui (analyzeImages Mapper_Exif ''k'' (one_readable ''null'')
        (demo_app [photo ''a'']) fresh)) ! 0) = JNull \<and>
   \<not> terminal (results (ui (analyzeImages Mapper_Exif ''k'' (one_readable ''null'')
        (demo_app [photo ''a'']) fresh)) ! 0)"
  unfolding run_null_reply
  by (simp add: started_def demo_app_def apiKey_def terminal_def succeeded_def errored_def)

text \<open>
  Claim C3 as amended. After a run that starts there is one result item per selected
  file, and every item has \<open>processing\<close> false and the outcome of its own file: the
  error of its preprocessing, or the value \<open>JSON.parse\<close> returned for the text of its own
  reply with a \<open>null\<close> error, or a set error with \<open>null\<close> data. Every item is in exactly
  one terminal state, data set with a \<open>null\<close> error or error set, except the items whose
  own reply parsed to \<open>null\<close>. An item that is no longer processing in one published list
  is the same in every later published list of the run, and the last published list is
  the final result list.
\<close>

theorem analyzeImages_settles:
  assumes "started v k a"
  shows "length (results (ui (analyzeImages v k p a w))) = length (selectedFiles a) \<and>
         (\<forall>j < length (selectedFiles a).
            own_outcome v k p a w j (results (ui (analyzeImages v k p a w)) ! j) \<and>
            terminal (results (ui (analyzeImages v k p a w)) ! j) = (\<not> null_reply v k p a w j)) \<and>
         final_items (length (selectedFiles a)) (published (analyzeImages v k p a w)) \<and>
         last (published (analyzeImages v k p a w)) = results (ui (analyzeImages v k p a w))"
proof -
  let ?E = "loop_end v k p a w"
  have R: "results (ui (analyzeImages v k p a w)) = currentResults ?E"
    "published (analyzeImages v k p a w) = published ?E"
    using loop_end_facts(2)[where v = v and k = k and p = p and a = a and w = w]
    by (simp_all add: analyzeImages_started[OF assms])
  have own: "own_outcome v k p a w j (currentResults ?E ! j)" if "j < length (selectedFiles a)" for j
    using that by (rule own_outcome_end)
  have "terminal (currentResults ?E ! j) = (\<not> null_reply v k p a w j)"
    if "j < length (selectedFiles a)" for j
    using own[OF that] by (rule own_outcome_terminal)
  with own show ?thesis
    unfolding R
    using loop_end_facts(1,4,12)[where v = v and k = k and p = p and a = a and w = w]
    by simp
qed

theorem analyzeImages_settles_witness:
  "started Mapper_Exif ''k'' two_photos \<and>
   length (results (ui (analyzeImages Mapper_Exif ''k'' (first_unreadable ''{}'') two_photos fresh))) = 2 \<and>
   own_outcome Mapper_Exif ''k'' (first_unreadable ''{}'') two_photos fresh 0
     (results (ui (analyzeImages Mapper_Exif ''k'' (first_unreadable ''{}'') two_photos fresh)) ! 0) \<and>
   own_outcome Mapper_Exif ''k'' (first_unreadable ''{}'') two_photos fresh 1
     (results (ui (analyzeImages Mapper_Exif ''k'' (first_unreadable ''{}'') two_photos fresh)) ! 1) \<and>
   terminal (results (ui (analyzeImages Mapper_Exif ''k'' (first_unreadable ''{}'') two_photos fresh)) ! 0) \<and>
   terminal (results (ui (analyzeImages Mapper_Exif ''k'' (first_unreadable ''{}'') two_photos fresh)) ! 1) \<and>
   errored (results (ui (analyzeImages Mapper_Exif ''k'' (first_unreadable ''{}'') two_photos fresh)) ! 0) \<and>
   succeeded (results (ui (analyzeImages Mapper_Exif ''k'' (first_unreadable ''{}'') two_photos fresh)) ! 1) \<and>
   reply_value (first_unreadable ''{}'')
     (call_result Mapper_Exif ''k'' (first_unreadable ''{}'') two_photos fresh 1) =
     Some (data (results (ui (analyzeImages Mapper_Exif ''k'' (first_unreadable ''{}'') two_photos fresh)) ! 1)) \<and>
   final_items 2 (published (analyzeImages Mapper_Exif ''k'' (first_unreadable ''{}'') two_photos fresh)) \<and>
   started Mapper_Exif ''k'' (demo_app [photo ''a'']) \<and>
   null_reply Mapper_Exif ''k'' (one_readable ''null'') (demo_app [photo ''a'']) fresh 0 \<and>
   \<not> terminal (results (ui (analyzeImages Mapper_Exif ''k'' (one_readable ''null'')
        (demo_app [photo ''a'']) fresh)) ! 0)"
proof -
  let ?p = "first_unreadable ''{}''"
  let ?R = "analyzeImages Mapper_Exif ''k'' ?p two_photos fresh"
  let ?q = "one_readable ''null''"
  let ?S = "analyzeImages Mapper_Exif ''k'' ?q (demo_app [photo ''a'']) fresh"
  have h1: "started Mapper_Exif ''k'' two_photos"
    by (simp add: started_def two_photos_def demo_app_def apiKey_def)
  have h2: "started Mapper_Exif ''k'' (demo_app [photo ''a''])"
    by (simp add: started_def demo_app_def apiKey_def)
  have n: "length (selectedFiles two_photos) = 2" "length (selectedFiles (demo_app [photo ''a''])) = 1"
    by (simp_all add: two_photos_def demo_app_def)
  note inst = analyzeImages_settles[OF h1, of ?p fresh]
  note inst2 = analyzeImages_settles[OF h2, of ?q fresh]
  from inst n have len: "length (results (ui ?R)) = 2" by simp
  from inst n have own: "own_outcome Mapper_Exif ''k'' ?p two_photos fresh 0 (results (ui ?R) ! 0)"
    "own_outcome Mapper_Exif ''k'' ?p two_photos fresh 1 (results (ui ?R) ! 1)"
    by simp_all
  have s: "errored (results (ui ?R) ! 0)" "succeeded (results (ui ?R) ! 1)"
    "terminal (results (ui ?R) ! 0)" "terminal (results (ui ?R) ! 1)"
    "reply_value ?p (call_result Mapper_Exif ''k'' ?p two_photos fresh 1) =
       Some (data (results (ui ?R) ! 1))"
    unfolding run_plain(1,2) by (simp_all add: errored_def succeeded_def terminal_def)
  from inst n have f: "final_items 2 (published ?R)" by simp
  have nr: "null_reply Mapper_Exif ''k'' ?q (demo_app [photo ''a'']) fresh 0"
    by (simp add: eval_run eval_backoff eval_loop)
  from inst2 n nr have nt: "\<not> terminal (results (ui ?S) ! 0)" by simp
  show ?thesis using h1 h2 len own s f nr nt by blast
qed

subsection \<open>Publication\<close>

text \<open>
  Claim C4. Within one run, from one list handed to \<open>setResults\<close> to the next the number
  of items whose \<open>processing\<close> is false never decreases, and every published list is the
  full result list of the batch: one item per selected file, in the order of the files.
\<close>

theorem analyzeImages_publications_rise:
  "(\<forall>n. Suc n < length (published (analyzeImages v k p a w)) \<longrightarrow>
      terminal_count (published (analyzeImages v k p a w) ! n) \<le>
      terminal_count (published (analyzeImages v k p a w) ! Suc n)) \<and>
   (\<forall>q \<in> set (published (analyzeImages v k p a w)).
      length q = length (selectedFiles a) \<and> map file q = selectedFiles a) \<and>
   (started v k a \<longrightarrow> published (analyzeImages v k p a w) \<noteq> [])"
proof (cases "started v k a")
  case True
  let ?E = "loop_end v k p a w"
  have R: "published (analyzeImages v k p a w) = published ?E"
    by (simp add: analyzeImages_started[OF True])
  have "terminal_count (published ?E ! n) \<le> terminal_count (published ?E ! Suc n)"
    if "Suc n < length (published ?E)" for n
    using sorted_nth_mono[OF loop_end_facts(11)[where v = v and k = k and p = p and a = a and w = w], of n "Suc n"] that by simp
  then show ?thesis
    unfolding R using loop_end_facts(3,5)[where v = v and k = k and p = p and a = a and w = w] by simp
next
  case False
  then show ?thesis by (simp add: analyzeImages_not_started)
qed

theorem analyzeImages_publications_rise_witness:
  "started Mapper_Exif ''k'' two_photos \<and>
   published (analyzeImages Mapper_Exif ''k''
      ((first_unreadable ''{}'')\<lparr>JSON_parse := object_parse\<rparr>) two_photos fresh) \<noteq> [] \<and>
   map terminal_count (published (analyzeImages Mapper_Exif ''k''
      ((first_unreadable ''{}'')\<lparr>JSON_parse := object_parse\<rparr>) two_photos fresh)) = [1, 2] \<and>
   terminal_count (published (analyzeImages Mapper_Exif ''k''
      ((first_unreadable ''{}'')\<lparr>JSON_parse := object_parse\<rparr>) two_photos fresh) ! 0) \<le>
   terminal_count (published (analyzeImages Mapper_Exif ''k''
      ((first_unreadable ''{}'')\<lparr>JSON_parse := object_parse\<rparr>) two_photos fresh) ! Suc 0)"
proof -
  let ?p = "(first_unreadable ''{}'')\<lparr>JSON_parse := object_parse\<rparr>"
  let ?R = "analyzeImages Mapper_Exif ''k'' ?p two_photos fresh"
  have h1: "started Mapper_Exif ''k'' two_photos"
    by (simp add: started_def two_photos_def demo_app_def apiKey_def)
  have counts: "map terminal_count (published ?R) = [1, 2]"
    by (rule run_first_unreadable(2))
  then have "length (map terminal_count (published ?R)) = 2" by simp
  then have len: "Suc 0 < length (published ?R)" by simp
  show ?thesis
    using h1 counts len analyzeImages_publications_rise[of Mapper_Exif "''k''" ?p two_photos fresh]
    by blast
qed

subsection \<open>Isolation of preprocessing failures\<close>




end
